theory Spec2Isabelle
  imports Complex_Main
begin

section \<open>Overview\<close>

text \<open>
  The page is one React component whose effect installs three kinds of handlers on a
  mutable record (\<^verbatim>\<open>state.current\<close>): a layout measurement, a wheel handler and a
  per-frame animation tick. Each handler is embedded as a function from the record before
  to the record after. What a handler reads from the document (the window width, whether a
  ref is attached, the container's scroll width) is passed in as a snapshot.

  TypeScript's \<^verbatim>\<open>number\<close> is a binary64 floating-point number. The finite ones are embedded
  as the reals they denote, and every arithmetic operation rounds its exact result to the
  nearest double (section Numbers). \<^verbatim>\<open>window.innerWidth\<close> and \<^verbatim>\<open>scrollWidth\<close> are integers
  (WebIDL \<^verbatim>\<open>long\<close>).
\<close>

section \<open>Numbers\<close>

text \<open>
  Round to the nearest integer, ties to the even one.
\<close>

definition rne :: "real \<Rightarrow> int" where
  "rne x =
     (let n = \<lfloor>x\<rfloor>
      in if x - of_int n < 1 / 2 then n
         else if 1 / 2 < x - of_int n then n + 1
         else if even n then n else n + 1)"

text \<open>
  The doubles around a magnitude \<open>a\<close> are the multiples of \<open>2 powi e\<close>, where \<open>e\<close> is
  found by a search from 0: upwards while \<open>a\<close> needs more than 53 bits at that spacing,
  then downwards while it needs fewer, within the exponent range of binary64 (spacing
  \<open>2 powi (- 1074)\<close> for the subnormal numbers, \<open>2 powi 971\<close> for the largest).
\<close>

function scale_up :: "real \<Rightarrow> int \<Rightarrow> int" where
  "scale_up a e = (if e < 971 \<and> 2 powi (e + 53) \<le> a then scale_up a (e + 1) else e)"
  by pat_completeness auto
termination
  by (relation "measure (\<lambda>(a, e). nat (971 - e))") auto

function scale_down :: "real \<Rightarrow> int \<Rightarrow> int" where
  "scale_down a e = (if - 1074 < e \<and> a < 2 powi (e + 52) then scale_down a (e - 1) else e)"
  by pat_completeness auto
termination
  by (relation "measure (\<lambda>(a, e). nat (e + 1074))") auto

declare scale_up.simps [simp del] scale_down.simps [simp del]

definition quantum :: "real \<Rightarrow> int" where
  "quantum a = scale_down a (scale_up a 0)"

text \<open>
  Rounding to binary64, round-to-nearest, ties-to-even. Where the machine overflows to
  \<^verbatim>\<open>Infinity\<close> (from \<open>2 ^ 1024 - 2 ^ 970\<close> on) the value of \<open>fl\<close> is at least \<open>2 ^ 1024\<close>,
  which is no double: such results are outside what the embedding describes.
\<close>

definition fl :: "real \<Rightarrow> real" where
  "fl x = (let e = quantum \<bar>x\<bar> in of_int (rne (x / 2 powi e)) * 2 powi e)"

text \<open>A real is a (finite) double when rounding leaves it alone.\<close>

definition is_double :: "real \<Rightarrow> bool" where
  "is_double x \<longleftrightarrow> fl x = x"

text \<open>
  Doubles of magnitude up to \<open>2 ^ 1022\<close>: sums and differences of two of them stay below
  the overflow threshold, so the arithmetic on them is the machine's.
\<close>

definition safe_double :: "real \<Rightarrow> bool" where
  "safe_double x \<longleftrightarrow> is_double x \<and> \<bar>x\<bar> \<le> 2 ^ 1022"

text \<open>
  The arithmetic of \<^verbatim>\<open>number\<close>: \<^verbatim>\<open>a + b\<close>, \<^verbatim>\<open>a - b\<close>, \<^verbatim>\<open>a * b\<close> and \<^verbatim>\<open>a / b\<close> (for a
  divisor that is not zero), and a decimal literal of the source text, which denotes the
  nearest double. Negation, \<^verbatim>\<open>Math.abs\<close>, \<^verbatim>\<open>Math.min\<close>, \<^verbatim>\<open>Math.max\<close> and the comparisons are
  exact. The literals 0.25, 0.5, 1.5 and the integers are doubles and stand for themselves.
\<close>

definition num_add :: "real \<Rightarrow> real \<Rightarrow> real" where
  "num_add a b = fl (a + b)"

definition num_sub :: "real \<Rightarrow> real \<Rightarrow> real" where
  "num_sub a b = fl (a - b)"

definition num_mul :: "real \<Rightarrow> real \<Rightarrow> real" where
  "num_mul a b = fl (a * b)"

definition num_div :: "real \<Rightarrow> real \<Rightarrow> real" where
  "num_div a b = fl (a / b)"

definition lit :: "real \<Rightarrow> real" where
  "lit x = fl x"

text \<open>The range of a WebIDL \<^verbatim>\<open>long\<close>.\<close>

definition long :: "int \<Rightarrow> bool" where
  "long n \<longleftrightarrow> - (2 ^ 31) \<le> n \<and> n < 2 ^ 31"

section \<open>The page\<close>

record AnimationState =
  currentX :: real
  targetX :: real
  maxScroll :: real
  skew :: real

text \<open>\<^verbatim>\<open>useRef({ x: 0, y: 0 })\<close>, for the raw pointer and for the drawn cursor.\<close>

record point =
  xpos :: real
  ypos :: real

text \<open>
  The snapshot of the document a handler sees: \<^verbatim>\<open>window.innerWidth\<close>,
  \<^verbatim>\<open>containerRef.current\<close> (its \<^verbatim>\<open>scrollWidth\<close> when the ref is attached, \<open>None\<close> when it
  is null), whether \<^verbatim>\<open>progressThumbRef.current\<close>, \<^verbatim>\<open>cursorRef.current\<close> and
  \<^verbatim>\<open>flowTextRef.current\<close> are attached, and \<^verbatim>\<open>flowSlideRef.current\<close> (the part of its
  \<^verbatim>\<open>getBoundingClientRect()\<close> that is read, when attached).
\<close>

record rect =
  rect_left :: real
  rect_right :: real
  rect_width :: real

record dom =
  innerWidth :: int
  containerRef :: "int option"
  progressThumbRef :: bool
  cursorRef :: bool
  flowSlideRef :: "rect option"
  flowTextRef :: bool

record page =
  state :: AnimationState
  mouse :: point
  cursor :: point

definition initial_state :: AnimationState where
  "initial_state = \<lparr>currentX = 0, targetX = 0, maxScroll = 0, skew = 0\<rparr>"

definition initial_page :: page where
  "initial_page =
     \<lparr>state = initial_state, mouse = \<lparr>xpos = 0, ypos = 0\<rparr>, cursor = \<lparr>xpos = 0, ypos = 0\<rparr>\<rparr>"

subsection \<open>Linear interpolation\<close>

definition lerp :: "real \<Rightarrow> real \<Rightarrow> real \<Rightarrow> real" where
  "lerp start end factor = num_add start (num_mul (num_sub end start) factor)"

subsection \<open>The Reveal component\<close>

text \<open>
  The component's state is the flag \<^verbatim>\<open>isVisible\<close>. Beside it stands what its
  \<^verbatim>\<open>IntersectionObserver\<close> holds: whether the target is still observed, and the threshold
  index of the last notification.
\<close>

record IntersectionObserverEntry =
  isIntersecting :: bool
  intersectionRatio :: real

record Reveal =
  isVisible :: bool
  observing :: bool
  previousThresholdIndex :: "nat option"

text \<open>
  The effect run on mount: \<^verbatim>\<open>useState(false)\<close>, and
  \<^verbatim>\<open>if (ref.current) observer.observe(ref.current)\<close>.
\<close>

definition Reveal_mount :: "bool \<Rightarrow> Reveal" where
  "Reveal_mount refAttached =
     \<lparr>isVisible = False, observing = refAttached, previousThresholdIndex = None\<rparr>"

text \<open>
  The observer's callback: \<^verbatim>\<open>setIsVisible(true); observer.disconnect()\<close> under
  \<^verbatim>\<open>if (entry.isIntersecting)\<close>.
\<close>

definition Reveal_callback :: "IntersectionObserverEntry \<Rightarrow> Reveal \<Rightarrow> Reveal" where
  "Reveal_callback entry r =
     (if isIntersecting entry then r\<lparr>isVisible := True, observing := False\<rparr> else r)"

text \<open>
  Modelled from the spec: the intersection-observation primitive of the rendering engine
  (the browser's \<^verbatim>\<open>IntersectionObserver\<close>), which is no code of this repository. For an
  observer with one positive threshold (0.6 in \<^verbatim>\<open>part_000\<close>, 0.7 in \<^verbatim>\<open>src/App.tsx\<close>, 0.2 in
  \<^verbatim>\<open>part_001\<close>): a sample of the target's intersection ratio has threshold index 1 when
  it reaches the threshold and 0 otherwise; the callback is invoked when the index differs
  from the one last notified (the first sample always notifies), with \<^verbatim>\<open>isIntersecting\<close>
  true exactly for index 1; a disconnected observer notifies nothing.
\<close>

definition observer_sample :: "real \<Rightarrow> real \<Rightarrow> Reveal \<Rightarrow> Reveal" where
  "observer_sample threshold ratio r =
     (if \<not> observing r then r
      else (let thresholdIndex = (if threshold \<le> ratio then 1 else 0 :: nat)
            in if previousThresholdIndex r = Some thresholdIndex then r
               else Reveal_callback
                      \<lparr>isIntersecting = (0 < thresholdIndex), intersectionRatio = ratio\<rparr>
                      (r\<lparr>previousThresholdIndex := Some thresholdIndex\<rparr>)))"

fun Reveal_run :: "real \<Rightarrow> real list \<Rightarrow> Reveal \<Rightarrow> Reveal" where
  "Reveal_run threshold [] r = r"
| "Reveal_run threshold (ratio # ratios) r =
     Reveal_run threshold ratios (observer_sample threshold ratio r)"

text \<open>The flag after each sample, in order.\<close>

fun Reveal_trace :: "real \<Rightarrow> real list \<Rightarrow> Reveal \<Rightarrow> bool list" where
  "Reveal_trace threshold [] r = []"
| "Reveal_trace threshold (ratio # ratios) r =
     isVisible (observer_sample threshold ratio r)
       # Reveal_trace threshold ratios (observer_sample threshold ratio r)"

text \<open>
  The states a mounted component passes through: it is observed exactly while it is hidden,
  and while it is observed no notification has reported the threshold as reached.
\<close>

definition pending :: "Reveal \<Rightarrow> bool" where
  "pending r \<longleftrightarrow>
     (observing r \<longleftrightarrow> \<not> isVisible r) \<and>
     (observing r \<longrightarrow> previousThresholdIndex r \<noteq> Some 1)"

subsection \<open>Layout measurement\<close>

text \<open>
  \<^verbatim>\<open>calculateLayout\<close> of \<^verbatim>\<open>part_000\<close> and of \<^verbatim>\<open>src/App.tsx\<close> (the same text in both). The
  call \<^verbatim>\<open>setWindowWidth(viewportWidth)\<close> only asks React for a re-render and writes nothing
  to the animation state.
\<close>

definition calculateLayout :: "dom \<Rightarrow> AnimationState \<Rightarrow> AnimationState" where
  "calculateLayout d st =
     (case containerRef d of
        None \<Rightarrow> st
      | Some scrollWidth \<Rightarrow>
          (let viewportWidth = innerWidth d;
               totalContainerWidth = scrollWidth
           in st\<lparr>maxScroll := num_sub (of_int totalContainerWidth) (of_int viewportWidth)\<rparr>))"

text \<open>\<^verbatim>\<open>calculateLayout\<close> of \<^verbatim>\<open>part_001\<close>, which measures in the horizontal mode only.\<close>

definition calculateLayout_part001 :: "dom \<Rightarrow> AnimationState \<Rightarrow> AnimationState" where
  "calculateLayout_part001 d st =
     (case containerRef d of
        None \<Rightarrow> st
      | Some scrollWidth \<Rightarrow>
          if 1024 \<le> innerWidth d
          then st\<lparr>maxScroll := num_sub (of_int scrollWidth) (of_int (innerWidth d))\<rparr>
          else st)"

subsection \<open>Wheel handler\<close>

text \<open>
  \<^verbatim>\<open>handleWheel\<close> of \<^verbatim>\<open>part_000\<close> and of \<^verbatim>\<open>src/App.tsx\<close>; the argument is \<^verbatim>\<open>e.deltaY\<close>.
  \<^verbatim>\<open>e.preventDefault()\<close> acts on the event only.
\<close>

definition handleWheel :: "real \<Rightarrow> AnimationState \<Rightarrow> AnimationState" where
  "handleWheel deltaY st =
     (let st1 = st\<lparr>targetX := num_add (targetX st) deltaY\<rparr>
      in st1\<lparr>targetX := max 0 (min (targetX st1) (maxScroll st1))\<rparr>)"

text \<open>\<^verbatim>\<open>handleWheel\<close> of \<^verbatim>\<open>part_001\<close>: below 1024 pixels it returns at once.\<close>

definition handleWheel_part001 :: "dom \<Rightarrow> real \<Rightarrow> AnimationState \<Rightarrow> AnimationState" where
  "handleWheel_part001 d deltaY st =
     (if innerWidth d < 1024 then st else handleWheel deltaY st)"

text \<open>
  The interval clamp of the specification, \<open>clamp(x, lo, hi)\<close>: the nearest point of
  \<open>[lo, hi]\<close>. It is meaningful for \<open>lo \<le> hi\<close>.
\<close>

definition clamp_spec :: "real \<Rightarrow> real \<Rightarrow> real \<Rightarrow> real" where
  "clamp_spec v lo hi = (if v < lo then lo else if hi < v then hi else v)"

text \<open>The targets reached by a sequence of wheel events, one entry per event.\<close>

fun wheel_path :: "real list \<Rightarrow> AnimationState \<Rightarrow> real list" where
  "wheel_path [] st = []"
| "wheel_path (deltaY # ds) st =
     targetX (handleWheel deltaY st) # wheel_path ds (handleWheel deltaY st)"

subsection \<open>Pointer capture\<close>

definition onMouseMove :: "real \<Rightarrow> real \<Rightarrow> page \<Rightarrow> page" where
  "onMouseMove clientX clientY p = p\<lparr>mouse := \<lparr>xpos = clientX, ypos = clientY\<rparr>\<rparr>"

subsection \<open>The animation tick\<close>

text \<open>
  What one tick writes to the document. A field is \<open>None\<close> when the tick leaves that style
  alone. The container's transform is \<^verbatim>\<open>translate3d(x px, 0, 0) scale(z) skewX(s deg)\<close>
  (without the skew in \<^verbatim>\<open>src/App.tsx\<close>) or the literal \<^verbatim>\<open>none\<close>.
\<close>

datatype container_style =
    Translate_Scale_Skew real "real option" real
  | Translate_Scale real "real option"
  | Transform_None

record frame =
  containerStyle :: "container_style option"
  cursorStyle :: "(real \<times> real) option"
  flowTextStyle :: "real option"
  thumbStyle :: "real option"

text \<open>
  \<^verbatim>\<open>Math.min(Math.abs(currentX) / (window.innerWidth * 0.25), 1)\<close>. The divisor is zero
  when the window width is; then a nonzero \<open>currentX\<close> gives \<^verbatim>\<open>Infinity\<close>, whose minimum
  with 1 is 1, and \<open>currentX = 0\<close> gives \<^verbatim>\<open>NaN\<close>, which \<^verbatim>\<open>Math.min\<close> returns: \<open>None\<close> here.
  The zoom level is \<^verbatim>\<open>1.5 - zoomProgress * 0.5\<close>.
\<close>

definition zoomProgress :: "real \<Rightarrow> int \<Rightarrow> real option" where
  "zoomProgress cx w =
     (let divisor = num_mul (of_int w) 0.25
      in if divisor = 0
         then (if cx = 0 then None else Some 1)
         else Some (min (num_div \<bar>cx\<bar> divisor) 1))"

definition zoomLevel :: "real \<Rightarrow> int \<Rightarrow> real option" where
  "zoomLevel cx w = map_option (\<lambda>zp. num_sub 1.5 (num_mul zp 0.5)) (zoomProgress cx w)"

text \<open>Section D of the tick, the progress bar, with its guard.\<close>

definition progressBar :: "dom \<Rightarrow> real \<Rightarrow> AnimationState \<Rightarrow> real option" where
  "progressBar d cx st =
     (if progressThumbRef d \<and> 0 < maxScroll st
      then (let scrollPercentage = min (max (num_div cx (maxScroll st)) 0) 1;
                thumbPos = num_mul scrollPercentage 224
            in Some thumbPos)
      else None)"

text \<open>Section C, the parallax of the FLOW text, with the damping factor of the variant.\<close>

definition flowParallax :: "real \<Rightarrow> dom \<Rightarrow> real option" where
  "flowParallax damping d =
     (case flowSlideRef d of
        None \<Rightarrow> None
      | Some slideRect \<Rightarrow>
          if flowTextRef d \<and> 0 < rect_right slideRect \<and> rect_left slideRect < of_int (innerWidth d)
          then (let offset =
                      num_sub (of_int (innerWidth d))
                        (num_add (rect_left slideRect) (num_div (rect_width slideRect) 2))
                in Some (num_mul (- offset) damping))
          else None)"

text \<open>
  \<^verbatim>\<open>animate\<close> of \<^verbatim>\<open>part_000\<close>, one call: the page after the tick and what it wrote. The call
  ends by asking for the next frame, so the running page is this function iterated.
\<close>

definition animate :: "dom \<Rightarrow> page \<Rightarrow> page \<times> frame" where
  "animate d p =
     (let st = state p;
          st1 = st\<lparr>currentX := lerp (currentX st) (targetX st) (lit 0.05)\<rparr>;
          cx = currentX st1;
          tx = targetX st1;
          velocity = num_sub tx cx;
          targetSkew = num_mul velocity (lit 0.001);
          st2 = st1\<lparr>skew := lerp (skew st1) targetSkew (lit 0.1)\<rparr>;
          cur = \<lparr>xpos = lerp (xpos (cursor p)) (xpos (mouse p)) (lit 0.15),
                 ypos = lerp (ypos (cursor p)) (ypos (mouse p)) (lit 0.15)\<rparr>
      in (p\<lparr>state := st2, cursor := cur\<rparr>,
          \<lparr>containerStyle =
             (if containerRef d \<noteq> None
              then Some (Translate_Scale_Skew (- cx) (zoomLevel cx (innerWidth d)) (skew st2))
              else None),
           cursorStyle = (if cursorRef d then Some (xpos cur, ypos cur) else None),
           flowTextStyle = flowParallax (lit 0.2) d,
           thumbStyle = progressBar d cx st2\<rparr>))"

text \<open>
  \<^verbatim>\<open>animate\<close> of \<^verbatim>\<open>src/App.tsx\<close>: the easing is written inline with the factor 0.08, there
  is no skew and the cursor is moved by the pointer handler, not by the tick.
\<close>

definition animate_App :: "dom \<Rightarrow> page \<Rightarrow> page \<times> frame" where
  "animate_App d p =
     (let st = state p;
          st1 = st\<lparr>currentX :=
                  num_add (currentX st) (num_mul (num_sub (targetX st) (currentX st)) (lit 0.08))\<rparr>;
          cx = currentX st1
      in (p\<lparr>state := st1\<rparr>,
          \<lparr>containerStyle =
             (if containerRef d \<noteq> None
              then Some (Translate_Scale (- cx) (zoomLevel cx (innerWidth d)))
              else None),
           cursorStyle = None,
           flowTextStyle = flowParallax 0.25 d,
           thumbStyle = progressBar d cx st1\<rparr>))"

text \<open>
  \<^verbatim>\<open>animate\<close> of \<^verbatim>\<open>part_001\<close>: the scroll engine and the progress bar run in the horizontal
  mode only; below 1024 pixels the container's transform is reset.
\<close>

definition animate_part001 :: "dom \<Rightarrow> page \<Rightarrow> page \<times> frame" where
  "animate_part001 d p =
     (let st = state p;
          st1 = st\<lparr>currentX := lerp (currentX st) (targetX st) (lit 0.05)\<rparr>;
          cx = currentX st1;
          tx = targetX st1;
          velocity = num_sub tx cx;
          targetSkew = num_mul velocity (lit 0.001);
          st2 = st1\<lparr>skew := lerp (skew st1) targetSkew (lit 0.1)\<rparr>;
          horizontal = (1024 \<le> innerWidth d);
          cur = \<lparr>xpos = lerp (xpos (cursor p)) (xpos (mouse p)) 0.25,
                 ypos = lerp (ypos (cursor p)) (ypos (mouse p)) 0.25\<rparr>
      in (p\<lparr>state := (if horizontal then st2 else st), cursor := cur\<rparr>,
          \<lparr>containerStyle =
             (if containerRef d = None then None
              else if horizontal
              then Some (Translate_Scale_Skew (- cx) (zoomLevel cx (innerWidth d)) (skew st2))
              else Some Transform_None),
           cursorStyle = (if cursorRef d then Some (xpos cur, ypos cur) else None),
           flowTextStyle = flowParallax (lit 0.2) d,
           thumbStyle = (if horizontal then progressBar d cx st2 else None)\<rparr>))"

text \<open>The page after \<open>n\<close> ticks under one document snapshot.\<close>

definition ticks :: "nat \<Rightarrow> dom \<Rightarrow> page \<Rightarrow> page" where
  "ticks n d p = ((\<lambda>q. fst (animate d q)) ^^ n) p"

subsection \<open>The scroll invariant and example documents\<close>

text \<open>The invariant the data model names for the animation state.\<close>

definition scroll_invariant :: "AnimationState \<Rightarrow> bool" where
  "scroll_invariant st \<longleftrightarrow> 0 \<le> targetX st \<and> targetX st \<le> maxScroll st \<and> 0 \<le> maxScroll st"

text \<open>
  A document with every ref attached, given by the window's width and the container's
  scroll width; the FLOW slide lies off screen to the right.
\<close>

definition document :: "int \<Rightarrow> int \<Rightarrow> dom" where
  "document viewportWidth scrollWidth =
     \<lparr>innerWidth = viewportWidth, containerRef = Some scrollWidth, progressThumbRef = True,
      cursorRef = True,
      flowSlideRef = Some \<lparr>rect_left = of_int viewportWidth + 100,
                            rect_right = of_int viewportWidth + 900, rect_width = 800\<rparr>,
      flowTextRef = True\<rparr>"


subsection \<open>A page at rest short of its target\<close>

text \<open>
  The position ten units in the last place below 100, and a page that stands there with
  the target 100.
\<close>

definition stall_position :: real where
  "stall_position = 100 - 10 / 2 ^ 46"

definition stalled_page :: page where
  "stalled_page =
     initial_page\<lparr>state := \<lparr>currentX = stall_position, targetX = 100, maxScroll = 3560, skew = 0\<rparr>\<rparr>"

subsection \<open>Example pages\<close>

text \<open>The initial page after the pointer has moved to \<open>(500, 0)\<close>.\<close>

definition pointer_page :: page where
  "pointer_page = onMouseMove 500 0 initial_page"

text \<open>A page at position 0 whose target a wheel event has set to 100.\<close>

definition wheeled_page :: page where
  "wheeled_page =
     initial_page\<lparr>state := \<lparr>currentX = 0, targetX = 100, maxScroll = 3560, skew = 0\<rparr>\<rparr>"

subsection \<open>The interpolation of the specification\<close>

text \<open>
  The interpolation primitive as the specification words it, \<open>start + (end - start) * factor\<close>
  over the reals, to be compared with \<open>lerp\<close>, which computes the same expression in
  binary64.
\<close>

definition lerp_spec :: "real \<Rightarrow> real \<Rightarrow> real \<Rightarrow> real" where
  "lerp_spec start end factor = start + (end - start) * factor"


subsection \<open>The scale of the rounding\<close>

text \<open>
  \<^verbatim>\<open>Number.MIN_VALUE\<close>, the smallest positive double, and a bound for what the three
  roundings of one interpolation step can add up to when the position and the target are of
  magnitude at most \<open>m\<close>: four times \<open>m * Number.EPSILON\<close>, that is \<open>m / 2 ^ 50\<close>, and
  for a product that underflows two times \<^verbatim>\<open>Number.MIN_VALUE\<close>.
\<close>

definition MIN_VALUE :: real where
  "MIN_VALUE = 2 powi (- 1074)"

definition rounding_slack :: "real \<Rightarrow> real" where
  "rounding_slack m = m / 2 ^ 50 + 2 * MIN_VALUE"

subsection \<open>A narrow window in the responsive variant\<close>

text \<open>
  The animation state of \<^verbatim>\<open>part_001\<close> after this history: the page is measured at width 1200
  with content 1250 wide, a wheel event of 50 arrives, the content shrinks to 1100 and the
  window grows to 1300 and is measured again, and then the window is narrowed to 800, where
  the measurement is skipped.
\<close>

definition narrowed_state :: AnimationState where
  "narrowed_state =
     calculateLayout_part001 (document 800 1100)
       (calculateLayout_part001 (document 1300 1100)
          (handleWheel_part001 (document 1200 1250) 50
             (calculateLayout_part001 (document 1200 1250) initial_state)))"

section \<open>Properties of the arithmetic\<close>

text \<open>
  The definitions of this section evaluate by rewriting; these are the equations to unfold.
\<close>

lemmas num_eval =
  num_add_def num_sub_def num_mul_def num_div_def lit_def fl_def quantum_def
  scale_up.simps scale_down.simps rne_def

lemma rne_prop:
  "\<bar>x - of_int (rne x)\<bar> < 1 / 2 \<or> (\<bar>x - of_int (rne x)\<bar> = 1 / 2 \<and> even (rne x))"
proof -
  define n where "n = \<lfloor>x\<rfloor>"
  have fl: "of_int n \<le> x" "x < of_int n + 1"
    unfolding n_def by linarith+
  consider "x - of_int n < 1 / 2" | "1 / 2 < x - of_int n"
    | "x - of_int n = 1 / 2" "even n" | "x - of_int n = 1 / 2" "odd n"
    by fastforce
  then show ?thesis
  proof cases
    case 1
    then have "rne x = n" by (simp add: rne_def n_def)
    with 1 fl show ?thesis by simp
  next
    case 2
    then have "rne x = n + 1" by (simp add: rne_def n_def)
    with 2 fl show ?thesis by simp
  next
    case 3
    then have "rne x = n" by (simp add: rne_def n_def)
    with 3 show ?thesis by simp
  next
    case 4
    then have "rne x = n + 1" by (simp add: rne_def n_def)
    with 4 show ?thesis by simp
  qed
qed

lemma rne_close: "\<bar>x - of_int (rne x)\<bar> \<le> 1 / 2"
  using rne_prop [of x] by linarith

lemma rne_unique:
  assumes "\<bar>x - of_int n\<bar> < 1 / 2 \<or> (\<bar>x - of_int n\<bar> = 1 / 2 \<and> even n)"
  shows "rne x = n"
proof (rule ccontr)
  assume neq: "rne x \<noteq> n"
  then have far: "1 \<le> \<bar>real_of_int (rne x) - real_of_int n\<bar>"
  proof -
    from neq have "1 \<le> \<bar>rne x - n\<bar>" by linarith
    then have "real_of_int 1 \<le> real_of_int \<bar>rne x - n\<bar>"
      by (rule of_int_le_iff [THEN iffD2])
    then show ?thesis by simp
  qed
  from assms rne_prop [of x] have both: "\<bar>x - of_int n\<bar> = 1 / 2" "even n"
    "\<bar>x - of_int (rne x)\<bar> = 1 / 2" "even (rne x)"
    using far by linarith+
  from both(1,3) far have "\<bar>rne x - n\<bar> = 1"
    by linarith
  with both(2,4) show False
    by presburger
qed

lemma rne_of_int [simp]: "rne (of_int n) = n"
  by (rule rne_unique) simp

lemma rne_minus: "rne (- x) = - rne x"
proof (rule rne_unique)
  have "\<bar>- x - of_int (- rne x)\<bar> = \<bar>x - of_int (rne x)\<bar>"
    by simp
  with rne_prop [of x]
  show "\<bar>- x - of_int (- rne x)\<bar> < 1 / 2 \<or> (\<bar>- x - of_int (- rne x)\<bar> = 1 / 2 \<and> even (- rne x))"
    by simp
qed

lemma rne_mono:
  assumes "x \<le> y"
  shows "rne x \<le> rne y"
proof (rule ccontr)
  assume "\<not> rne x \<le> rne y"
  then have "rne y + 1 \<le> rne x" by simp
  then have gap: "real_of_int (rne y) + 1 \<le> real_of_int (rne x)"
    by (metis of_int_1 of_int_add of_int_le_iff)
  with rne_close [of x] rne_close [of y] assms have "x = y"
    by linarith
  with \<open>\<not> rne x \<le> rne y\<close> show False by simp
qed

lemma rne_0 [simp]: "rne 0 = 0"
  using rne_of_int [of 0] by simp

lemma rne_numeral [simp]: "rne (numeral k) = numeral k"
  using rne_of_int [of "numeral k"] by simp

lemma rne_nonneg: "0 \<le> x \<Longrightarrow> 0 \<le> rne x"
  using rne_mono [of 0 x] by simp

lemma rne_le_twice:
  assumes "0 \<le> x"
  shows "real_of_int (rne x) \<le> 2 * x"
proof (cases "x < 1 / 2")
  case True
  with assms have "rne x = 0"
    by (intro rne_unique) simp
  with assms show ?thesis by simp
next
  case False
  with rne_close [of x] show ?thesis by linarith
qed

lemma scale_up_bounds:
  "e \<le> 971 \<Longrightarrow>
     e \<le> scale_up a e \<and> scale_up a e \<le> 971 \<and>
     (scale_up a e < 971 \<longrightarrow> a < 2 powi (scale_up a e + 53)) \<and>
     (e < scale_up a e \<longrightarrow> 2 powi (scale_up a e + 52) \<le> a)"
proof (induction a e rule: scale_up.induct)
  case (1 a e)
  show ?case
  proof (cases "e < 971 \<and> 2 powi (e + 53) \<le> a")
    case True
    then have eq: "scale_up a e = scale_up a (e + 1)"
      by (simp add: scale_up.simps [of a e])
    from True "1.IH" have IH:
      "e + 1 \<le> scale_up a (e + 1)" "scale_up a (e + 1) \<le> 971"
      "scale_up a (e + 1) < 971 \<longrightarrow> a < 2 powi (scale_up a (e + 1) + 53)"
      "e + 1 < scale_up a (e + 1) \<longrightarrow> 2 powi (scale_up a (e + 1) + 52) \<le> a"
      by simp_all
    have "2 powi (scale_up a (e + 1) + 52) \<le> a"
    proof (cases "e + 1 < scale_up a (e + 1)")
      case True
      with IH(4) show ?thesis by simp
    next
      case False
      with IH(1) have "scale_up a (e + 1) + 52 = e + 53" by simp
      with True show ?thesis by (simp only:)
    qed
    with IH show ?thesis by (simp add: eq)
  next
    case False
    then have eq: "scale_up a e = e"
      by (auto simp add: scale_up.simps [of a e])
    from False "1.prems" show ?thesis
      by (auto simp add: eq)
  qed
qed

lemma scale_down_bounds:
  "- 1074 \<le> e \<Longrightarrow>
     - 1074 \<le> scale_down a e \<and> scale_down a e \<le> e \<and>
     (- 1074 < scale_down a e \<longrightarrow> 2 powi (scale_down a e + 52) \<le> a) \<and>
     (scale_down a e < e \<longrightarrow> a < 2 powi (scale_down a e + 53))"
proof (induction a e rule: scale_down.induct)
  case (1 a e)
  show ?case
  proof (cases "- 1074 < e \<and> a < 2 powi (e + 52)")
    case True
    then have eq: "scale_down a e = scale_down a (e - 1)"
      by (simp add: scale_down.simps [of a e])
    from True "1.IH" have IH:
      "- 1074 \<le> scale_down a (e - 1)" "scale_down a (e - 1) \<le> e - 1"
      "- 1074 < scale_down a (e - 1) \<longrightarrow> 2 powi (scale_down a (e - 1) + 52) \<le> a"
      "scale_down a (e - 1) < e - 1 \<longrightarrow> a < 2 powi (scale_down a (e - 1) + 53)"
      by simp_all
    have "a < 2 powi (scale_down a (e - 1) + 53)"
    proof (cases "scale_down a (e - 1) < e - 1")
      case True
      with IH(4) show ?thesis by simp
    next
      case False
      with IH(2) have "scale_down a (e - 1) + 53 = e + 52" by simp
      with True show ?thesis by (simp only:)
    qed
    with IH show ?thesis by (simp add: eq)
  next
    case False
    then have eq: "scale_down a e = e"
      by (auto simp add: scale_down.simps [of a e])
    from False "1.prems" show ?thesis
      by (auto simp add: eq)
  qed
qed

lemma quantum_bounds:
  "- 1074 \<le> quantum a \<and> quantum a \<le> 971 \<and>
   (- 1074 < quantum a \<longrightarrow> 2 powi (quantum a + 52) \<le> a) \<and>
   (quantum a < 971 \<longrightarrow> a < 2 powi (quantum a + 53))"
proof -
  have up: "0 \<le> scale_up a 0" "scale_up a 0 \<le> 971"
    "scale_up a 0 < 971 \<longrightarrow> a < 2 powi (scale_up a 0 + 53)"
    using scale_up_bounds [of 0 a] by simp_all
  then have "- 1074 \<le> scale_up a 0" by simp
  from scale_down_bounds [OF this, of a] up show ?thesis
    unfolding quantum_def by (smt (verit))
qed

lemma quantum_mono:
  assumes "a \<le> b"
  shows "quantum a \<le> quantum b"
proof (rule ccontr)
  assume "\<not> quantum a \<le> quantum b"
  then have lt: "quantum b < quantum a" by simp
  with quantum_bounds [of a] quantum_bounds [of b]
  have "2 powi (quantum a + 52) \<le> a" "b < 2 powi (quantum b + 53)"
    by linarith+
  moreover from lt have "(2::real) powi (quantum b + 53) \<le> 2 powi (quantum a + 52)"
    by (intro power_int_increasing) simp_all
  ultimately show False using assms by linarith
qed

lemma fl_0 [simp]: "fl 0 = 0"
  by (simp add: fl_def)

lemma fl_minus: "fl (- x) = - fl x"
  by (simp add: fl_def rne_minus Let_def)

lemma fl_nonneg:
  assumes "0 \<le> x"
  shows "0 \<le> fl x"
proof -
  have "0 \<le> x / 2 powi quantum \<bar>x\<bar>"
    using assms by simp
  then have "0 \<le> rne (x / 2 powi quantum \<bar>x\<bar>)"
    by (rule rne_nonneg)
  then show ?thesis
    by (simp add: fl_def Let_def)
qed

lemma fl_le_twice:
  assumes "0 \<le> x"
  shows "fl x \<le> 2 * x"
proof -
  define q :: real where "q = 2 powi quantum \<bar>x\<bar>"
  have q: "0 < q" by (simp add: q_def)
  have "0 \<le> x / q" using assms q by simp
  then have "real_of_int (rne (x / q)) \<le> 2 * (x / q)"
    by (rule rne_le_twice)
  then have "real_of_int (rne (x / q)) * q \<le> 2 * (x / q) * q"
    using q by (simp only: mult_le_cancel_right_pos)
  then show ?thesis
    using q by (simp add: fl_def Let_def q_def)
qed

lemma fl_mono_nonneg:
  assumes "0 \<le> x" "x \<le> y"
  shows "fl x \<le> fl y"
proof -
  define ex ey where "ex = quantum \<bar>x\<bar>" and "ey = quantum \<bar>y\<bar>"
  from assms have abs: "\<bar>x\<bar> = x" "\<bar>y\<bar> = y" by simp_all
  have flx: "fl x = of_int (rne (x / 2 powi ex)) * 2 powi ex"
    and fly: "fl y = of_int (rne (y / 2 powi ey)) * 2 powi ey"
    by (simp_all add: fl_def Let_def ex_def ey_def)
  from assms(2) have le: "ex \<le> ey"
    unfolding ex_def ey_def abs by (rule quantum_mono)
  show ?thesis
  proof (cases "ex = ey")
    case True
    have "x / 2 powi ey \<le> y / 2 powi ey"
      using assms by (simp add: divide_right_mono)
    then have "rne (x / 2 powi ey) \<le> rne (y / 2 powi ey)"
      by (rule rne_mono)
    then show ?thesis
      by (simp add: flx fly True mult_right_mono)
  next
    case False
    with le have lt: "ex < ey" by simp
    with quantum_bounds [of x] quantum_bounds [of y]
    have x_hi: "x < 2 powi (ex + 53)" and y_lo: "2 powi (ey + 52) \<le> y"
      unfolding ex_def ey_def abs by linarith+
    have "x / 2 powi ex \<le> 2 powi 53"
      using x_hi by (simp add: power_int_add divide_le_eq mult.commute)
    then have "rne (x / 2 powi ex) \<le> rne (of_int (2 ^ 53))"
      by (intro rne_mono) simp
    then have "real_of_int (rne (x / 2 powi ex)) \<le> real_of_int (rne (of_int (2 ^ 53)))"
      by (simp only: of_int_le_iff)
    then have "real_of_int (rne (x / 2 powi ex)) \<le> 2 ^ 53"
      by simp
    then have "fl x \<le> 2 ^ 53 * 2 powi ex"
      by (simp add: flx mult_right_mono)
    also have "\<dots> = 2 powi (ex + 53)"
      by (simp add: power_int_add)
    also from lt have "\<dots> \<le> 2 powi (ey + 52)"
      by (intro power_int_increasing) simp_all
    also have "\<dots> = 2 ^ 52 * 2 powi ey"
      by (simp add: power_int_add)
    also have "\<dots> \<le> fl y"
    proof -
      have "2 powi 52 \<le> y / 2 powi ey"
        using y_lo by (simp add: power_int_add le_divide_eq mult.commute)
      then have "rne (of_int (2 ^ 52)) \<le> rne (y / 2 powi ey)"
        by (intro rne_mono) simp
      then have "real_of_int (rne (of_int (2 ^ 52))) \<le> real_of_int (rne (y / 2 powi ey))"
        by (simp only: of_int_le_iff)
      then have "2 ^ 52 \<le> real_of_int (rne (y / 2 powi ey))"
        by simp
      then show ?thesis
        by (simp add: fly mult_right_mono)
    qed
    finally show ?thesis .
  qed
qed

lemma fl_mono:
  assumes "x \<le> y"
  shows "fl x \<le> fl y"
proof -
  consider "0 \<le> x" | "y \<le> 0" | "x < 0" "0 < y"
    by linarith
  then show ?thesis
  proof cases
    case 1
    then show ?thesis using assms by (rule fl_mono_nonneg)
  next
    case 2
    with assms have "fl (- y) \<le> fl (- x)"
      by (intro fl_mono_nonneg) simp_all
    then show ?thesis by (simp add: fl_minus)
  next
    case 3
    then have "0 \<le> fl y" "0 \<le> fl (- x)"
      by (intro fl_nonneg; simp)+
    then show ?thesis by (simp add: fl_minus)
  qed
qed

lemma fl_of_multiple:
  assumes "x / 2 powi quantum \<bar>x\<bar> = of_int j"
  shows "fl x = x"
proof -
  have "fl x = of_int j * 2 powi quantum \<bar>x\<bar>"
    by (simp add: fl_def Let_def assms)
  also have "\<dots> = x / 2 powi quantum \<bar>x\<bar> * 2 powi quantum \<bar>x\<bar>"
    by (simp only: assms)
  also have "\<dots> = x"
    by simp
  finally show ?thesis .
qed

lemma fl_exact:
  assumes x: "x = of_int m * 2 powi k"
    and k: "- 1074 \<le> k"
    and m: "\<bar>m\<bar> \<le> 2 ^ 53 \<or> 971 \<le> k"
  shows "fl x = x"
proof -
  define e where "e = quantum \<bar>x\<bar>"
  have "\<exists>j. x / 2 powi e = of_int j"
  proof (cases "e \<le> k")
    case True
    have "(2::real) powi k / 2 powi e = 2 powi (k - e)"
      by (simp add: power_int_diff)
    also from True have "\<dots> = 2 ^ nat (k - e)"
      by (simp add: power_int_def)
    finally have "(2::real) powi k / 2 powi e = 2 ^ nat (k - e)" .
    then have "real_of_int m * (2 powi k / 2 powi e) = real_of_int m * 2 ^ nat (k - e)"
      by (simp only:)
    then have "x / 2 powi e = of_int (m * 2 ^ nat (k - e))"
      by (simp add: x)
    then show ?thesis ..
  next
    case False
    then have lt: "k < e" by simp
    with k quantum_bounds [of "\<bar>x\<bar>"] have lo: "2 powi (e + 52) \<le> \<bar>x\<bar>" and "e \<le> 971"
      unfolding e_def by linarith+
    with lt m have m53: "\<bar>m\<bar> \<le> 2 ^ 53" by linarith
    then have "real_of_int \<bar>m\<bar> \<le> real_of_int (2 ^ 53)"
      by (simp only: of_int_le_iff)
    then have m53r: "\<bar>real_of_int m\<bar> \<le> 2 ^ 53" by simp
    have absx: "\<bar>x\<bar> = \<bar>real_of_int m\<bar> * 2 powi k"
      by (simp add: x abs_mult)
    also have "\<dots> \<le> 2 ^ 53 * 2 powi k"
      using m53r by (simp add: mult_right_mono)
    also have "\<dots> = 2 powi (k + 53)"
      by (simp add: power_int_add)
    finally have "(2::real) powi (e + 52) \<le> 2 powi (k + 53)"
      using lo by linarith
    then have "e + 52 \<le> k + 53"
      using power_int_strict_increasing [of "k + 53" "e + 52" "2::real"] by fastforce
    with lt have e: "e = k + 1" by simp
    have "(2::real) powi (k + 53) \<le> \<bar>real_of_int m\<bar> * 2 powi k"
      using lo absx by (simp add: e add.commute add.left_commute)
    then have "2 ^ 53 * (2::real) powi k \<le> \<bar>real_of_int m\<bar> * 2 powi k"
      by (simp add: power_int_add)
    then have "2 ^ 53 \<le> \<bar>real_of_int m\<bar>"
      by simp
    with m53r have "\<bar>real_of_int m\<bar> = 2 ^ 53" by linarith
    then have "real_of_int \<bar>m\<bar> = real_of_int (2 ^ 53)" by simp
    then have "\<bar>m\<bar> = 2 ^ 53" by (simp only: of_int_eq_iff)
    then have "m = 2 * 2 ^ 52 \<or> m = 2 * (- (2 ^ 52))"
      by (cases "m < 0") simp_all
    then obtain h where "m = 2 * h" by blast
    then have "real_of_int m = 2 * real_of_int h"
      by simp
    then have "x / 2 powi e = of_int h"
      by (simp add: x e power_int_add)
    then show ?thesis ..
  qed
  then obtain j where "x / 2 powi quantum \<bar>x\<bar> = of_int j"
    unfolding e_def ..
  then show ?thesis by (rule fl_of_multiple)
qed

lemma fl_idem [simp]: "fl (fl x) = fl x"
proof -
  define e where "e = quantum \<bar>x\<bar>"
  define m where "m = rne (x / 2 powi e)"
  have flx: "fl x = of_int m * 2 powi e"
    by (simp add: fl_def Let_def e_def m_def)
  have e: "- 1074 \<le> e" "e \<le> 971" "e < 971 \<longrightarrow> \<bar>x\<bar> < 2 powi (e + 53)"
    using quantum_bounds [of "\<bar>x\<bar>"] by (simp_all add: e_def)
  have "\<bar>m\<bar> \<le> 2 ^ 53 \<or> 971 \<le> e"
  proof (cases "e < 971")
    case True
    with e have "\<bar>x\<bar> < 2 powi (e + 53)" by simp
    then have "\<bar>x\<bar> / 2 powi e < 2 ^ 53"
      by (simp add: power_int_add divide_less_eq mult.commute)
    then have "- (2 ^ 53) \<le> x / 2 powi e" "x / 2 powi e \<le> 2 ^ 53"
      by (simp_all add: abs_if field_simps split: if_splits)
    then have "rne (- (2 ^ 53)) \<le> m" "m \<le> rne (2 ^ 53)"
      unfolding m_def by (simp_all only: rne_mono)
    then have "\<bar>m\<bar> \<le> 2 ^ 53"
      by (simp add: rne_minus abs_le_iff)
    then show ?thesis ..
  next
    case False
    then show ?thesis by simp
  qed
  with flx e(1) show ?thesis
    by (intro fl_exact [of _ m e]) simp_all
qed

lemma fl_of_int:
  assumes "\<bar>n\<bar> \<le> 2 ^ 53"
  shows "fl (of_int n) = of_int n"
  using assms by (intro fl_exact [of _ n 0]) simp_all


lemma is_double_fl [simp]: "is_double (fl x)"
  by (simp add: is_double_def)

lemma is_double_0 [simp]: "is_double 0"
  by (simp add: is_double_def)

lemma num_sub_of_int:
  assumes "long a" "long b"
  shows "num_sub (of_int a) (of_int b) = of_int a - of_int b"
proof -
  from assms have "\<bar>a - b\<bar> \<le> 2 ^ 53"
    by (simp add: long_def abs_le_iff)
  then have "fl (of_int (a - b)) = of_int (a - b)"
    by (rule fl_of_int)
  then show ?thesis
    by (simp add: num_sub_def)
qed

text \<open>The doubles that the decimal literals of the source denote.\<close>

lemma lit_0_05: "lit 0.05 = 3602879701896397 / 2 ^ 56"
  by (simp add: num_eval)

lemma lit_0_08: "lit 0.08 = 5764607523034235 / 2 ^ 56"
  by (simp add: num_eval)

lemma lit_0_1: "lit 0.1 = 3602879701896397 / 2 ^ 55"
  by (simp add: num_eval)

lemma lit_0_15: "lit 0.15 = 5404319552844595 / 2 ^ 55"
  by (simp add: num_eval)

lemma lit_0_2: "lit 0.2 = 3602879701896397 / 2 ^ 54"
  by (simp add: num_eval)

lemma lit_0_001: "lit 0.001 = 1152921504606847 / 2 ^ 60"
  by (simp add: num_eval)

lemma lit_0_6: "lit 0.6 = 5404319552844595 / 2 ^ 53"
  by (simp add: num_eval)

lemma lit_0_3: "lit 0.3 = 5404319552844595 / 2 ^ 54"
  by (simp add: num_eval)

lemma MIN_VALUE_range: "0 < MIN_VALUE \<and> MIN_VALUE \<le> 1 / 2 ^ 100"
proof -
  have "(2::real) powi (- 1074) \<le> 2 powi (- 100)"
    by (intro power_int_increasing) simp_all
  also have "\<dots> = 1 / 2 ^ 100"
    by (simp add: power_int_minus)
  finally show ?thesis
    by (simp add: MIN_VALUE_def)
qed

lemma fl_error: "\<bar>fl x - x\<bar> \<le> \<bar>x\<bar> / 2 ^ 53 + MIN_VALUE / 2"
proof -
  define e where "e = quantum \<bar>x\<bar>"
  define q :: real where "q = 2 powi e"
  have q: "0 < q" by (simp add: q_def)
  have "\<bar>x / q - of_int (rne (x / q))\<bar> \<le> 1 / 2"
    by (rule rne_close)
  then have "\<bar>x / q - of_int (rne (x / q))\<bar> * q \<le> 1 / 2 * q"
    using q by (simp only: mult_le_cancel_right_pos)
  moreover have "\<bar>x / q - of_int (rne (x / q))\<bar> * q = \<bar>(x / q - of_int (rne (x / q))) * q\<bar>"
    using q by (simp add: abs_mult)
  moreover have "(x / q - of_int (rne (x / q))) * q = x - fl x"
    using q by (simp add: fl_def Let_def e_def q_def algebra_simps)
  ultimately have near: "\<bar>fl x - x\<bar> \<le> q / 2"
    by (simp add: abs_minus_commute)
  show ?thesis
  proof (cases "- 1074 < e")
    case True
    with quantum_bounds [of "\<bar>x\<bar>"] have "2 powi (e + 52) \<le> \<bar>x\<bar>"
      by (simp add: e_def)
    moreover have "(2::real) powi (e + 52) = q * 2 ^ 52"
      by (simp add: q_def power_int_add)
    ultimately have "q / 2 \<le> \<bar>x\<bar> / 2 ^ 53"
      by simp
    with near MIN_VALUE_range show ?thesis
      by linarith
  next
    case False
    with quantum_bounds [of "\<bar>x\<bar>"] have "e = - 1074"
      by (simp add: e_def)
    then have "q = MIN_VALUE"
      by (simp add: q_def MIN_VALUE_def)
    moreover have "0 \<le> \<bar>x\<bar> / 2 ^ 53"
      by simp
    ultimately show ?thesis
      using near by linarith
  qed
qed
section \<open>Properties of the layout measurement\<close>

text \<open>
  C8. Re-running the layout measurement changes only \<open>maxScroll\<close>: for every document
  snapshot and every prior state, \<open>targetX\<close>, \<open>currentX\<close> and \<open>skew\<close> are what they were,
  in the plain variant and in the responsive one.
\<close>

theorem calculateLayout_frame:
  "targetX (calculateLayout d st) = targetX st \<and>
   currentX (calculateLayout d st) = currentX st \<and>
   skew (calculateLayout d st) = skew st \<and>
   targetX (calculateLayout_part001 d st) = targetX st \<and>
   currentX (calculateLayout_part001 d st) = currentX st \<and>
   skew (calculateLayout_part001 d st) = skew st"
  by (simp add: calculateLayout_def calculateLayout_part001_def Let_def split: option.split)

text \<open>
  C1, as the code has it. The measurement does not clamp: a container narrower than the
  window gives a negative bound.
\<close>

theorem calculateLayout_unclamped_counterexample:
  "maxScroll (calculateLayout (document 1000 800) initial_state) = - 200 \<and>
   maxScroll (calculateLayout (document 1000 800) initial_state) < 0 \<and>
   maxScroll (calculateLayout (document 1000 800) initial_state)
     \<noteq> max 0 (of_int 800 - of_int 1000)"
proof -
  have "num_sub 800 1000 = - 200"
    by (simp add: num_eval)
  then show ?thesis
    by (simp add: calculateLayout_def document_def initial_state_def)
qed

text \<open>
  C1, amended. With the container attached (and widths in the range of a \<^verbatim>\<open>long\<close>, so that
  the subtraction is exact) the measurement sets \<open>maxScroll\<close> to the container's scroll
  width minus the window's width, unclamped; the responsive variant does so from 1024
  pixels on and otherwise leaves \<open>maxScroll\<close> as it was. The result is
  \<open>max(0, contentWidth - viewportWidth)\<close> exactly when the content is at least as wide as
  the window, and negative when it is narrower. With no container attached nothing changes.
\<close>

theorem calculateLayout_maxScroll:
  "(containerRef d = Some scrollWidth \<and> long scrollWidth \<and> long (innerWidth d) \<longrightarrow>
      maxScroll (calculateLayout d st) = of_int scrollWidth - of_int (innerWidth d) \<and>
      (maxScroll (calculateLayout d st) = max 0 (of_int scrollWidth - of_int (innerWidth d))
         \<longleftrightarrow> innerWidth d \<le> scrollWidth) \<and>
      (maxScroll (calculateLayout d st) < 0 \<longleftrightarrow> scrollWidth < innerWidth d) \<and>
      maxScroll (calculateLayout_part001 d st) =
        (if 1024 \<le> innerWidth d then of_int scrollWidth - of_int (innerWidth d)
         else maxScroll st)) \<and>
   (containerRef d = None \<longrightarrow>
      calculateLayout d st = st \<and> calculateLayout_part001 d st = st)"
  by (auto simp add: calculateLayout_def calculateLayout_part001_def Let_def num_sub_of_int)

theorem calculateLayout_maxScroll_witness:
  "containerRef (document 1440 5000) = Some 5000 \<and> long 5000 \<and>
   long (innerWidth (document 1440 5000)) \<and>
   maxScroll (calculateLayout (document 1440 5000) initial_state) = 3560 \<and>
   maxScroll (calculateLayout_part001 (document 1440 5000) initial_state) = 3560 \<and>
   containerRef ((document 1440 5000)\<lparr>containerRef := None\<rparr>) = None \<and>
   calculateLayout ((document 1440 5000)\<lparr>containerRef := None\<rparr>) initial_state = initial_state"
  using calculateLayout_maxScroll [of "document 1440 5000" 5000 initial_state]
    calculateLayout_maxScroll [of "(document 1440 5000)\<lparr>containerRef := None\<rparr>" 0 initial_state]
  by (simp add: document_def long_def)

section \<open>Properties of the wheel handler\<close>

lemma handleWheel_fields:
  "targetX (handleWheel deltaY st) = max 0 (min (num_add (targetX st) deltaY) (maxScroll st)) \<and>
   currentX (handleWheel deltaY st) = currentX st \<and>
   maxScroll (handleWheel deltaY st) = maxScroll st \<and>
   skew (handleWheel deltaY st) = skew st"
  by (simp add: handleWheel_def Let_def)

text \<open>
  C3. One wheel event with vertical delta \<open>d\<close> sets \<open>targetX\<close> to the previous target plus
  \<open>d\<close>, clamped by \<open>max(0, min(\<cdot>, maxScroll))\<close>, which is the interval clamp into
  \<open>[0, maxScroll]\<close> whenever that interval is not empty, and it touches no other field.
  From target 0 with \<open>maxScroll = 500\<close>, the deltas 100, 600, -50 give the targets
  100, 500, 450.
\<close>

theorem handleWheel_clamps:
  "targetX (handleWheel deltaY st) = max 0 (min (num_add (targetX st) deltaY) (maxScroll st)) \<and>
   (0 \<le> maxScroll st \<longrightarrow>
      targetX (handleWheel deltaY st)
        = clamp_spec (num_add (targetX st) deltaY) 0 (maxScroll st)) \<and>
   currentX (handleWheel deltaY st) = currentX st \<and>
   maxScroll (handleWheel deltaY st) = maxScroll st \<and>
   skew (handleWheel deltaY st) = skew st \<and>
   wheel_path [100, 600, - 50] (initial_state\<lparr>maxScroll := 500\<rparr>) = [100, 500, 450]"
proof -
  have sums: "num_add 0 100 = 100" "num_add 100 600 = 700" "num_add 500 (- 50) = 450"
    by (simp_all add: num_eval)
  have path: "wheel_path [100, 600, - 50] (initial_state\<lparr>maxScroll := 500\<rparr>) = [100, 500, 450]"
    by (simp add: handleWheel_fields initial_state_def sums)
  have clamp: "targetX (handleWheel deltaY st)
      = clamp_spec (num_add (targetX st) deltaY) 0 (maxScroll st)" if "0 \<le> maxScroll st"
    using that by (auto simp add: handleWheel_fields clamp_spec_def)
  from handleWheel_fields [of deltaY st] path clamp show ?thesis
    by blast
qed

theorem handleWheel_clamps_witness:
  "(0::real) \<le> maxScroll (initial_state\<lparr>targetX := 100, maxScroll := 500\<rparr>) \<and>
   targetX (handleWheel 600 (initial_state\<lparr>targetX := 100, maxScroll := 500\<rparr>)) = 500 \<and>
   clamp_spec (num_add 100 600) 0 500 = 500"
proof -
  have sum: "num_add 100 600 = 700"
    by (simp add: num_eval)
  show ?thesis
    using handleWheel_clamps [of 600 "initial_state\<lparr>targetX := 100, maxScroll := 500\<rparr>"]
    by (simp add: initial_state_def clamp_spec_def sum)
qed

text \<open>
  C10, as the code has it. In the responsive variant the window is narrowed to 800 pixels
  while \<open>maxScroll\<close> is \<open>- 200\<close> and \<open>targetX\<close> is 50. A wheel event with delta 120 then
  returns at once and leaves \<open>targetX\<close> at 50, not at 0.
\<close>

theorem handleWheel_part001_counterexample:
  "maxScroll narrowed_state = - 200 \<and>
   maxScroll narrowed_state < 0 \<and>
   targetX narrowed_state = 50 \<and>
   targetX (handleWheel_part001 (document 800 1100) 120 narrowed_state) = 50 \<and>
   targetX (handleWheel_part001 (document 800 1100) 120 narrowed_state) \<noteq> 0"
proof -
  have vals: "num_sub 1250 1200 = 50" "num_add 0 50 = 50" "num_sub 1100 1300 = - 200"
    by (simp_all add: num_eval)
  have measured: "calculateLayout_part001 (document 1200 1250) initial_state
      = \<lparr>currentX = 0, targetX = 0, maxScroll = 50, skew = 0\<rparr>"
    by (simp add: calculateLayout_part001_def document_def initial_state_def vals)
  have wheeled: "handleWheel_part001 (document 1200 1250) 50
      \<lparr>currentX = 0, targetX = 0, maxScroll = 50, skew = 0\<rparr>
      = \<lparr>currentX = 0, targetX = 50, maxScroll = 50, skew = 0\<rparr>"
    by (simp add: handleWheel_part001_def handleWheel_def document_def vals)
  have wide: "calculateLayout_part001 (document 1300 1100)
      \<lparr>currentX = 0, targetX = 50, maxScroll = 50, skew = 0\<rparr>
      = \<lparr>currentX = 0, targetX = 50, maxScroll = - 200, skew = 0\<rparr>"
    by (simp add: calculateLayout_part001_def document_def vals)
  have narrow: "calculateLayout_part001 (document 800 1100)
      \<lparr>currentX = 0, targetX = 50, maxScroll = - 200, skew = 0\<rparr>
      = \<lparr>currentX = 0, targetX = 50, maxScroll = - 200, skew = 0\<rparr>"
    by (simp add: calculateLayout_part001_def document_def)
  have state: "narrowed_state = \<lparr>currentX = 0, targetX = 50, maxScroll = - 200, skew = 0\<rparr>"
    unfolding narrowed_state_def measured wheeled wide narrow ..
  show ?thesis
    by (simp add: state handleWheel_part001_def document_def)
qed

text \<open>
  C10, amended. Under a negative \<open>maxScroll\<close> every wheel event that the handler acts on sets
  \<open>targetX\<close> to exactly 0, whatever its delta. In \<^verbatim>\<open>part_000\<close> and \<^verbatim>\<open>src/App.tsx\<close> that is
  every wheel event; in the responsive variant it is every wheel event at a window width of
  1024 pixels or more, and below 1024 pixels the handler returns at once and leaves the
  whole animation state, \<open>targetX\<close> included, as it was.
\<close>

theorem handleWheel_negative_maxScroll:
  "maxScroll st < 0 \<Longrightarrow>
     targetX (handleWheel deltaY st) = 0 \<and>
     (1024 \<le> innerWidth d \<longrightarrow> targetX (handleWheel_part001 d deltaY st) = 0) \<and>
     (innerWidth d < 1024 \<longrightarrow> handleWheel_part001 d deltaY st = st)"
  by (simp add: handleWheel_fields handleWheel_part001_def)

theorem handleWheel_negative_maxScroll_witness:
  "maxScroll (calculateLayout (document 1200 1000) initial_state) < 0 \<and>
   (1024::int) \<le> innerWidth (document 1200 1000) \<and>
   targetX (handleWheel 300 (calculateLayout (document 1200 1000) initial_state)) = 0 \<and>
   targetX (handleWheel_part001 (document 1200 1000) (- 40)
              (calculateLayout (document 1200 1000) initial_state)) = 0 \<and>
   innerWidth (document 800 1000) < (1024::int) \<and>
   handleWheel_part001 (document 800 1000) (- 40)
       (calculateLayout (document 1200 1000) initial_state)
     = calculateLayout (document 1200 1000) initial_state"
proof -
  have "num_sub 1000 1200 = - 200"
    by (simp add: num_eval)
  then have bound: "maxScroll (calculateLayout (document 1200 1000) initial_state) = - 200"
    by (simp add: calculateLayout_def document_def initial_state_def)
  have width: "innerWidth (document 1200 1000) = 1200" "innerWidth (document 800 1000) = 800"
    by (simp_all add: document_def)
  show ?thesis
    using handleWheel_negative_maxScroll
        [of "calculateLayout (document 1200 1000) initial_state" 300 "document 1200 1000"]
      handleWheel_negative_maxScroll
        [of "calculateLayout (document 1200 1000) initial_state" "- 40" "document 1200 1000"]
      handleWheel_negative_maxScroll
        [of "calculateLayout (document 1200 1000) initial_state" "- 40" "document 800 1000"]
    by (simp add: bound width)
qed
section \<open>The scroll invariant\<close>

lemma animate_keeps_target:
  "targetX (state (fst (animate d p))) = targetX (state p) \<and>
   maxScroll (state (fst (animate d p))) = maxScroll (state p)"
  by (simp add: animate_def Let_def)

text \<open>
  C2, as the code has it. From the initial state, a measurement gives the bound 500 and a
  wheel event of 600 clamps the target to 500, where the invariant holds; a later measurement
  in a wider window lowers the bound to 200 and leaves the target at 500, above the bound.
\<close>

theorem scroll_invariant_counterexample:
  "scroll_invariant (handleWheel 600 (calculateLayout (document 1000 1500) initial_state)) \<and>
   \<not> scroll_invariant
        (calculateLayout (document 1300 1500)
           (handleWheel 600 (calculateLayout (document 1000 1500) initial_state))) \<and>
   targetX (calculateLayout (document 1300 1500)
              (handleWheel 600 (calculateLayout (document 1000 1500) initial_state))) = 500 \<and>
   maxScroll (calculateLayout (document 1300 1500)
                (handleWheel 600 (calculateLayout (document 1000 1500) initial_state))) = 200"
proof -
  have sums: "num_sub 1500 1000 = 500" "num_add 0 600 = 600" "num_sub 1500 1300 = 200"
    by (simp_all add: num_eval)
  have first: "calculateLayout (document 1000 1500) initial_state
      = \<lparr>currentX = 0, targetX = 0, maxScroll = 500, skew = 0\<rparr>"
    by (simp add: calculateLayout_def document_def initial_state_def sums)
  have wheel: "handleWheel 600 \<lparr>currentX = 0, targetX = 0, maxScroll = 500, skew = 0\<rparr>
      = \<lparr>currentX = 0, targetX = 500, maxScroll = 500, skew = 0\<rparr>"
    by (simp add: handleWheel_def Let_def sums)
  have second: "calculateLayout (document 1300 1500)
        \<lparr>currentX = 0, targetX = 500, maxScroll = 500, skew = 0\<rparr>
      = \<lparr>currentX = 0, targetX = 500, maxScroll = 200, skew = 0\<rparr>"
    by (simp add: calculateLayout_def document_def sums)
  show ?thesis
    by (simp add: first wheel second scroll_invariant_def)
qed

text \<open>
  C2, amended. After every wheel event \<open>0 \<le> targetX\<close>, and the whole invariant holds
  whenever \<open>maxScroll\<close> is not negative. An animation tick changes neither \<open>targetX\<close> nor
  \<open>maxScroll\<close>, so it preserves the invariant. The layout measurement clamps neither the
  bound nor the target: from a state satisfying the invariant it preserves it exactly when
  the bound it leaves is at least \<open>targetX\<close>.
\<close>

theorem scroll_invariant_preservation:
  "0 \<le> targetX (handleWheel deltaY st) \<and>
   (0 \<le> maxScroll st \<longrightarrow> scroll_invariant (handleWheel deltaY st)) \<and>
   targetX (state (fst (animate d p))) = targetX (state p) \<and>
   maxScroll (state (fst (animate d p))) = maxScroll (state p) \<and>
   (scroll_invariant (state p) \<longrightarrow> scroll_invariant (state (fst (animate d p)))) \<and>
   (scroll_invariant st \<longrightarrow>
      (scroll_invariant (calculateLayout d st)
         \<longleftrightarrow> targetX st \<le> maxScroll (calculateLayout d st)))"
proof -
  have wheel: "0 \<le> targetX (handleWheel deltaY st)"
    by (simp add: handleWheel_fields)
  have wheel_inv: "scroll_invariant (handleWheel deltaY st)" if "0 \<le> maxScroll st"
    using that by (simp add: scroll_invariant_def handleWheel_fields)
  have tick: "scroll_invariant (state (fst (animate d p)))" if "scroll_invariant (state p)"
    using that animate_keeps_target [of d p] by (simp add: scroll_invariant_def)
  have layout: "scroll_invariant (calculateLayout d st)
      \<longleftrightarrow> targetX st \<le> maxScroll (calculateLayout d st)"
    if "scroll_invariant st"
    using that
    by (auto simp add: scroll_invariant_def calculateLayout_def Let_def split: option.splits)
  show ?thesis
    using wheel wheel_inv tick layout animate_keeps_target [of d p] by blast
qed

theorem scroll_invariant_preservation_witness:
  "(0::real) \<le> maxScroll \<lparr>currentX = 0, targetX = 0, maxScroll = 500, skew = 0\<rparr> \<and>
   scroll_invariant (handleWheel 600 \<lparr>currentX = 0, targetX = 0, maxScroll = 500, skew = 0\<rparr>) \<and>
   scroll_invariant (state (initial_page\<lparr>state := \<lparr>currentX = 0, targetX = 500, maxScroll = 500, skew = 0\<rparr>\<rparr>)) \<and>
   scroll_invariant (state (fst (animate (document 1000 1500)
      (initial_page\<lparr>state := \<lparr>currentX = 0, targetX = 500, maxScroll = 500, skew = 0\<rparr>\<rparr>)))) \<and>
   scroll_invariant \<lparr>currentX = 0, targetX = 500, maxScroll = 500, skew = 0\<rparr> \<and>
   scroll_invariant (calculateLayout (document 1000 1600)
      \<lparr>currentX = 0, targetX = 500, maxScroll = 500, skew = 0\<rparr>)"
proof -
  have "num_sub 1600 1000 = 600"
    by (simp add: num_eval)
  then have layout: "maxScroll (calculateLayout (document 1000 1600)
      \<lparr>currentX = 0, targetX = 500, maxScroll = 500, skew = 0\<rparr>) = 600"
    by (simp add: calculateLayout_def document_def)
  have inv: "scroll_invariant \<lparr>currentX = 0, targetX = 500, maxScroll = 500, skew = 0\<rparr>"
    by (simp add: scroll_invariant_def)
  show ?thesis
    using scroll_invariant_preservation
        [of 600 "\<lparr>currentX = 0, targetX = 0, maxScroll = 500, skew = 0\<rparr>" "document 1000 1500"
            "initial_page\<lparr>state := \<lparr>currentX = 0, targetX = 500, maxScroll = 500, skew = 0\<rparr>\<rparr>"]
      scroll_invariant_preservation
        [of 0 "\<lparr>currentX = 0, targetX = 500, maxScroll = 500, skew = 0\<rparr>" "document 1000 1600"
            initial_page]
    by (simp add: layout inv)
qed

section \<open>Properties of the Reveal component\<close>

lemma observer_sample_monotone:
  "isVisible r \<Longrightarrow> isVisible (observer_sample threshold ratio r)"
  by (simp add: observer_sample_def Reveal_callback_def Let_def)

lemma observer_sample_step:
  assumes "pending r"
  shows "pending (observer_sample threshold ratio r)"
    and "isVisible (observer_sample threshold ratio r) \<longleftrightarrow> isVisible r \<or> threshold \<le> ratio"
  using assms by (auto simp add: pending_def observer_sample_def Reveal_callback_def Let_def)

lemma Reveal_run_visible:
  "pending r \<Longrightarrow>
     pending (Reveal_run threshold ratios r) \<and>
     (isVisible (Reveal_run threshold ratios r)
        \<longleftrightarrow> isVisible r \<or> (\<exists>x \<in> set ratios. threshold \<le> x))"
proof (induction ratios arbitrary: r)
  case Nil
  then show ?case by simp
next
  case (Cons ratio ratios)
  from Cons.prems have "pending (observer_sample threshold ratio r)"
    by (rule observer_sample_step)
  from Cons.IH [OF this] observer_sample_step(2) [OF Cons.prems, of threshold ratio]
  show ?case by auto
qed

lemma Reveal_run_monotone: "isVisible r \<Longrightarrow> isVisible (Reveal_run threshold ratios r)"
  by (induction ratios arbitrary: r) (simp_all add: observer_sample_monotone)

lemma Reveal_run_append:
  "Reveal_run threshold (xs @ ys) r = Reveal_run threshold ys (Reveal_run threshold xs r)"
  by (induction xs arbitrary: r) simp_all

text \<open>
  C4. A mounted Reveal is hidden at first. After any sequence of intersection samples it is
  visible exactly when some sample of the sequence reached the threshold, so the flag flips
  at the first such sample; the observer is connected exactly while the component is hidden,
  so it is disconnected at that sample; and once visible it stays visible under every
  further sample. Against the threshold 0.6 the samples 0.1, 0.3, 0.75, 0.0 (the doubles
  these literals denote) give the flags false, false, true, true.
\<close>

theorem Reveal_one_shot:
  "\<not> isVisible (Reveal_mount True) \<and>
   (isVisible (Reveal_run threshold ratios (Reveal_mount True))
      \<longleftrightarrow> (\<exists>x \<in> set ratios. threshold \<le> x)) \<and>
   (observing (Reveal_run threshold ratios (Reveal_mount True))
      \<longleftrightarrow> \<not> isVisible (Reveal_run threshold ratios (Reveal_mount True))) \<and>
   (isVisible (Reveal_run threshold ratios (Reveal_mount True)) \<longrightarrow>
      isVisible (Reveal_run threshold (ratios @ later) (Reveal_mount True))) \<and>
   Reveal_trace (lit 0.6) [lit 0.1, lit 0.3, 0.75, 0] (Reveal_mount True) = [False, False, True, True]"
proof -
  have start: "pending (Reveal_mount True)"
    by (simp add: pending_def Reveal_mount_def)
  note run = Reveal_run_visible [OF start, of threshold ratios]
  have trace:
    "Reveal_trace (lit 0.6) [lit 0.1, lit 0.3, 0.75, 0] (Reveal_mount True)
       = [False, False, True, True]"
    unfolding lit_0_6 lit_0_1 lit_0_3
    by (simp add: observer_sample_def Reveal_callback_def Reveal_mount_def Let_def)
  show ?thesis
    using run trace
      Reveal_run_monotone [of "Reveal_run threshold ratios (Reveal_mount True)" threshold later]
    by (auto simp add: pending_def Reveal_mount_def Reveal_run_append)
qed

theorem Reveal_one_shot_witness:
  "isVisible (Reveal_run (lit 0.6) [lit 0.1, lit 0.3, 0.75] (Reveal_mount True)) \<and>
   \<not> isVisible (Reveal_run (lit 0.6) [lit 0.1, lit 0.3] (Reveal_mount True)) \<and>
   \<not> observing (Reveal_run (lit 0.6) [lit 0.1, lit 0.3, 0.75] (Reveal_mount True)) \<and>
   isVisible (Reveal_run (lit 0.6) ([lit 0.1, lit 0.3, 0.75] @ [0]) (Reveal_mount True))"
proof -
  have reached: "\<exists>x \<in> set [lit 0.1, lit 0.3, 0.75]. lit 0.6 \<le> x"
    unfolding lit_0_6 by (rule bexI [of _ "0.75"]) simp_all
  have not_reached: "\<not> (\<exists>x \<in> set [lit 0.1, lit 0.3]. lit 0.6 \<le> x)"
    unfolding lit_0_6 lit_0_1 lit_0_3 by simp
  show ?thesis
    using Reveal_one_shot [of "lit 0.6" "[lit 0.1, lit 0.3, 0.75]" "[0]"]
      Reveal_one_shot [of "lit 0.6" "[lit 0.1, lit 0.3]" "[]"]
      reached not_reached
    by blast
qed

section \<open>Properties of the animation tick\<close>

lemma num_mul_0 [simp]: "num_mul 0 b = 0"
  by (simp add: num_mul_def)

lemma num_mul_0_right [simp]: "num_mul a 0 = 0"
  by (simp add: num_mul_def)

lemma num_div_0 [simp]: "num_div 0 b = 0"
  by (simp add: num_div_def)

lemma num_sub_self [simp]: "num_sub a a = 0"
  by (simp add: num_sub_def)

lemma zoom_divisor:
  assumes "long w"
  shows "num_mul (of_int w) (1 / 4) = of_int w / 4"
proof -
  from assms have "\<bar>w\<bar> \<le> 2 ^ 53"
    by (simp add: long_def abs_le_iff)
  then have "fl (of_int w * 2 powi (- 2)) = of_int w * 2 powi (- 2)"
    by (intro fl_exact [of _ w "- 2"]) simp_all
  then show ?thesis
    by (simp add: num_mul_def power_int_minus)
qed

lemma zoomLevel_formula:
  assumes "0 < w" "long w"
  shows "zoomLevel cx w
    = Some (num_sub 1.5 (num_mul 0.5 (min (num_div \<bar>cx\<bar> (num_mul 0.25 (of_int w))) 1)))"
proof -
  have comm: "num_mul a b = num_mul b a" for a b
    by (simp add: num_mul_def mult.commute)
  from assms have "num_mul (of_int w) (1 / 4) \<noteq> 0"
    by (simp add: zoom_divisor)
  then show ?thesis
    by (simp add: zoomLevel_def zoomProgress_def Let_def comm [of "1 / 2"] comm [of "1 / 4"])
qed

text \<open>
  C6. In a window of positive width the zoom is the stated function of the scroll position,
  computed in the arithmetic of \<^verbatim>\<open>number\<close>: it is 1.5 at position 0 and 1.0 at every position from a
  quarter of the window's width on. The scale a tick writes to the container is that
  function of the position the same tick has just eased to, in \<^verbatim>\<open>part_000\<close> and in
  \<^verbatim>\<open>src/App.tsx\<close>.
\<close>

theorem zoom_of_scroll_position:
  "0 < w \<Longrightarrow> long w \<Longrightarrow>
     zoomLevel cx w
       = Some (num_sub 1.5 (num_mul 0.5 (min (num_div \<bar>cx\<bar> (num_mul 0.25 (of_int w))) 1))) \<and>
     zoomLevel 0 w = Some 1.5 \<and>
     (0.25 * of_int w \<le> cx \<longrightarrow> zoomLevel cx w = Some 1.0) \<and>
     (containerRef d \<noteq> None \<and> innerWidth d = w \<longrightarrow>
        containerStyle (snd (animate d p)) =
          Some (Translate_Scale_Skew (- currentX (state (fst (animate d p))))
                  (zoomLevel (currentX (state (fst (animate d p)))) w)
                  (skew (state (fst (animate d p))))) \<and>
        containerStyle (snd (animate_App d p)) =
          Some (Translate_Scale (- currentX (state (fst (animate_App d p))))
                  (zoomLevel (currentX (state (fst (animate_App d p)))) w)))"
proof -
  assume w: "0 < w" "long w"
  have formula: "zoomLevel c w
      = Some (num_sub 1.5 (num_mul 0.5 (min (num_div \<bar>c\<bar> (num_mul 0.25 (of_int w))) 1)))" for c
    using w by (rule zoomLevel_formula)
  have divisor: "num_mul (1 / 4) (of_int w) = of_int w / 4"
    using zoom_divisor [OF w(2)] by (simp add: num_mul_def mult.commute)
  have vals: "num_sub (3 / 2) 0 = 3 / 2" "num_mul (1 / 2) 1 = 1 / 2"
    "num_sub (3 / 2) (1 / 2) = 1" "fl 1 = 1"
    by (simp_all add: num_eval)
  have at_zero: "zoomLevel 0 w = Some 1.5"
    by (simp add: formula vals)
  have beyond: "zoomLevel cx w = Some 1.0" if "0.25 * of_int w \<le> cx"
  proof -
    have "0 < (of_int w :: real) / 4" using w by simp
    with that have "1 \<le> \<bar>cx\<bar> / (of_int w / 4)"
      by (simp add: le_divide_eq)
    then have "fl 1 \<le> fl (\<bar>cx\<bar> / (of_int w / 4))"
      by (rule fl_mono)
    then have "1 \<le> num_div \<bar>cx\<bar> (num_mul (1 / 4) (of_int w))"
      by (simp add: num_div_def divisor vals)
    then have "min (num_div \<bar>cx\<bar> (num_mul (1 / 4) (of_int w))) 1 = 1"
      by simp
    then show ?thesis
      by (simp add: formula vals)
  qed
  have tick: "containerStyle (snd (animate d p)) =
          Some (Translate_Scale_Skew (- currentX (state (fst (animate d p))))
                  (zoomLevel (currentX (state (fst (animate d p)))) w)
                  (skew (state (fst (animate d p)))))"
    if "containerRef d \<noteq> None" "innerWidth d = w"
    using that by (simp add: animate_def Let_def)
  have tick_App: "containerStyle (snd (animate_App d p)) =
          Some (Translate_Scale (- currentX (state (fst (animate_App d p))))
                  (zoomLevel (currentX (state (fst (animate_App d p)))) w))"
    if "containerRef d \<noteq> None" "innerWidth d = w"
    using that by (simp add: animate_App_def Let_def)
  show ?thesis
    using formula [of cx] at_zero beyond tick tick_App by blast
qed

theorem zoom_of_scroll_position_witness:
  "(0::int) < 1440 \<and> long 1440 \<and> zoomLevel 180 1440 = Some 1.25 \<and>
   zoomLevel 0 1440 = Some 1.5 \<and>
   0.25 * of_int 1440 \<le> (360::real) \<and> zoomLevel 360 1440 = Some 1 \<and>
   containerRef (document 1440 5000) \<noteq> None \<and> innerWidth (document 1440 5000) = 1440 \<and>
   containerStyle (snd (animate (document 1440 5000) initial_page)) =
     Some (Translate_Scale_Skew (- currentX (state (fst (animate (document 1440 5000) initial_page))))
             (zoomLevel (currentX (state (fst (animate (document 1440 5000) initial_page)))) 1440)
             (skew (state (fst (animate (document 1440 5000) initial_page)))))"
proof -
  have vals: "num_mul (1 / 4) 1440 = 360" "num_div 180 360 = 1 / 2"
    "num_mul (1 / 2) (1 / 2) = 1 / 4" "num_sub (3 / 2) (1 / 4) = 5 / 4"
    "num_div 360 360 = 1" "num_mul (1 / 2) 1 = 1 / 2" "num_sub (3 / 2) (1 / 2) = 1"
    by (simp_all add: num_eval)
  have long: "long 1440"
    by (simp add: long_def)
  have doc: "containerRef (document 1440 5000) \<noteq> None" "innerWidth (document 1440 5000) = 1440"
    by (simp_all add: document_def)
  show ?thesis
    using zoom_of_scroll_position [of 1440 180 "document 1440 5000" initial_page]
      zoom_of_scroll_position [of 1440 360 "document 1440 5000" initial_page]
    by (simp add: vals long doc)
qed

lemma progressBar_written:
  "progressBar d cx st = Some thumbPos \<longleftrightarrow>
     progressThumbRef d \<and> 0 < maxScroll st \<and>
     thumbPos = num_mul (clamp_spec (num_div cx (maxScroll st)) 0 1) 224"
  by (auto simp add: progressBar_def Let_def clamp_spec_def min_def max_def)

text \<open>
  C7. A tick writes the progress thumb only when \<open>maxScroll\<close> is positive (and the thumb is
  attached; in \<^verbatim>\<open>part_001\<close> also only in the horizontal mode), so the quotient
  \<open>currentX / maxScroll\<close> is formed with a positive divisor only; what it writes is the
  quotient clamped into \<open>[0, 1]\<close> times 224. For \<open>currentX = 250\<close> and \<open>maxScroll = 500\<close>
  this is 112.
\<close>

theorem progressBar_guard:
  "(thumbStyle (snd (animate d p)) = Some thumbPos \<longrightarrow>
      0 < maxScroll (state p) \<and> progressThumbRef d \<and>
      thumbPos =
        num_mul (clamp_spec (num_div (currentX (state (fst (animate d p)))) (maxScroll (state p)))
                   0 1) 224) \<and>
   (maxScroll (state p) \<le> 0 \<longrightarrow> thumbStyle (snd (animate d p)) = None) \<and>
   (thumbStyle (snd (animate_part001 d p)) = Some thumbPos \<longrightarrow>
      0 < maxScroll (state p) \<and> progressThumbRef d \<and> 1024 \<le> innerWidth d \<and>
      thumbPos =
        num_mul (clamp_spec (num_div (currentX (state (fst (animate_part001 d p))))
                              (maxScroll (state p))) 0 1) 224) \<and>
   (maxScroll (state p) \<le> 0 \<longrightarrow> thumbStyle (snd (animate_part001 d p)) = None) \<and>
   progressBar (document 1440 1940) 250
     \<lparr>currentX = 250, targetX = 250, maxScroll = 500, skew = 0\<rparr> = Some 112"
proof -
  have vals: "num_div 250 500 = 1 / 2" "num_mul (1 / 2) 224 = 112"
    by (simp_all add: num_eval)
  have example: "progressBar (document 1440 1940) 250
      \<lparr>currentX = 250, targetX = 250, maxScroll = 500, skew = 0\<rparr> = Some 112"
    by (simp add: progressBar_written clamp_spec_def vals) (simp add: document_def)
  have tick: "thumbStyle (snd (animate d p))
      = progressBar d (currentX (state (fst (animate d p)))) (state (fst (animate d p)))"
    by (simp add: animate_def Let_def)
  have tick_part001: "thumbStyle (snd (animate_part001 d p))
      = (if 1024 \<le> innerWidth d
         then progressBar d (currentX (state (fst (animate_part001 d p))))
                (state (fst (animate_part001 d p)))
         else None)"
    by (simp add: animate_part001_def Let_def)
  have bound: "maxScroll (state (fst (animate d p))) = maxScroll (state p)"
    by (simp add: animate_def Let_def)
  have bound_part001: "maxScroll (state (fst (animate_part001 d p))) = maxScroll (state p)"
    by (simp add: animate_part001_def Let_def)
  have none: "progressBar d cx st = None" if "maxScroll st \<le> 0" for cx st
    using that by (simp add: progressBar_def)
  show ?thesis
    unfolding tick tick_part001
    using example none [of "state (fst (animate d p))"] none [of "state (fst (animate_part001 d p))"]
    by (auto simp add: progressBar_written bound bound_part001)
qed

theorem progressBar_guard_witness:
  "thumbStyle (snd (animate (document 1440 1940)
      (initial_page\<lparr>state := \<lparr>currentX = 250, targetX = 250, maxScroll = 500, skew = 0\<rparr>\<rparr>)))
     = Some 112 \<and>
   (0::real) < maxScroll (state
      (initial_page\<lparr>state := \<lparr>currentX = 250, targetX = 250, maxScroll = 500, skew = 0\<rparr>\<rparr>)) \<and>
   maxScroll (state initial_page) \<le> 0 \<and>
   thumbStyle (snd (animate (document 1440 1940) initial_page)) = None"
proof -
  have vals: "num_add 250 0 = 250" "num_div 250 500 = 1 / 2" "num_mul (1 / 2) 224 = 112"
    by (simp_all add: num_eval)
  have thumb: "thumbStyle (snd (animate (document 1440 1940)
      (initial_page\<lparr>state := \<lparr>currentX = 250, targetX = 250, maxScroll = 500, skew = 0\<rparr>\<rparr>)))
     = Some 112"
    by (simp add: animate_def Let_def lerp_def progressBar_def vals) (simp add: document_def)
  show ?thesis
    using progressBar_guard [of "document 1440 1940"
        "initial_page\<lparr>state := \<lparr>currentX = 250, targetX = 250, maxScroll = 500, skew = 0\<rparr>\<rparr>" 112]
      progressBar_guard [of "document 1440 1940" initial_page 0]
    by (simp add: thumb) (simp add: initial_page_def initial_state_def)
qed

section \<open>Easing towards the target\<close>

lemma lerp_spec_distance: "end - lerp_spec start end factor = (1 - factor) * (end - start)"
  by (simp add: lerp_spec_def algebra_simps)

lemma power_int_split: "(2::real) powi (a + b) = 2 powi a * 2 powi b"
  by (rule power_int_add) simp

lemma double_multiple:
  assumes "is_double x"
  shows "\<exists>j. x = of_int j * 2 powi (- 1074)"
proof -
  define e where "e = quantum \<bar>x\<bar>"
  define u :: real where "u = 2 powi (- 1074)"
  have e: "- 1074 \<le> e"
    using quantum_bounds [of "\<bar>x\<bar>"] by (simp add: e_def)
  have "(2::real) powi (e + 1074 + (- 1074)) = 2 powi (e + 1074) * u"
    unfolding u_def by (rule power_int_split)
  moreover from e have "(2::real) powi (e + 1074) = 2 ^ nat (e + 1074)"
    by (simp add: power_int_def)
  ultimately have scale: "(2::real) powi e = 2 ^ nat (e + 1074) * u"
    by simp
  from assms have "x = of_int (rne (x / 2 powi e)) * 2 powi e"
    by (simp add: is_double_def fl_def Let_def e_def)
  then have "x = of_int (rne (x / 2 powi e) * 2 ^ nat (e + 1074)) * u"
    by (simp add: scale)
  then show ?thesis
    unfolding u_def ..
qed

lemma rounded_difference_normal:
  assumes c: "is_double c" and t: "is_double t" and lt: "0 \<le> t - c" "t - c < fl (t - c)"
  shows "- 1074 < quantum (fl (t - c))"
proof (rule ccontr)
  assume "\<not> - 1074 < quantum (fl (t - c))"
  define u :: real where "u = 2 powi (- 1074)"
  have u: "0 < u" by (simp add: u_def)
  have "(2::real) powi (53 + (- 1074)) = 2 powi 53 * u"
    unfolding u_def by (rule power_int_split)
  then have top: "(2::real) powi (- 1074 + 53) = 2 ^ 53 * u"
    by (simp add: add.commute)
  from \<open>\<not> - 1074 < quantum (fl (t - c))\<close> quantum_bounds [of "fl (t - c)"]
  have "fl (t - c) < 2 powi (- 1074 + 53)"
    by (smt (verit))
  with lt top have small: "t - c < 2 ^ 53 * u"
    by simp
  from double_multiple [OF c] double_multiple [OF t]
  obtain jc jt where "c = of_int jc * u" "t = of_int jt * u"
    unfolding u_def by blast
  then have y: "t - c = of_int (jt - jc) * u"
    by (simp add: algebra_simps)
  from lt(1) y u have "0 \<le> real_of_int (jt - jc)"
    by (simp add: zero_le_mult_iff)
  moreover from small y u have "real_of_int (jt - jc) < 2 ^ 53"
    by simp
  ultimately have "\<bar>real_of_int (jt - jc)\<bar> \<le> real_of_int (2 ^ 53)"
    by simp
  then have "\<bar>jt - jc\<bar> \<le> 2 ^ 53"
    by (metis of_int_abs of_int_le_iff)
  then have "fl (t - c) = t - c"
    using y unfolding u_def by (intro fl_exact [of _ "jt - jc" "- 1074"]) simp_all
  with lt(2) show False by simp
qed

lemma double_below_one:
  assumes "is_double f" "f < 1"
  shows "f \<le> 1 - 1 / 2 ^ 53"
proof (cases "f \<le> 1 / 2")
  case True
  then show ?thesis by simp
next
  case False
  then have pos: "0 < f" "\<bar>f\<bar> = f" by simp_all
  define e where "e = quantum f"
  have lo: "- 1074 < e \<longrightarrow> 2 powi (e + 52) \<le> f" and hi: "e < 971 \<longrightarrow> f < 2 powi (e + 53)"
    and range: "- 1074 \<le> e" "e \<le> 971"
    using quantum_bounds [of f] by (simp_all add: e_def)
  have "e \<le> - 53"
  proof (rule ccontr)
    assume "\<not> e \<le> - 53"
    then have "- 52 \<le> e" "- 1074 < e" by simp_all
    with lo have "2 powi (e + 52) \<le> f" by simp
    moreover from \<open>- 52 \<le> e\<close> have "(2::real) powi 0 \<le> 2 powi (e + 52)"
      by (intro power_int_increasing) simp_all
    ultimately show False using assms(2) by simp
  qed
  moreover have "- 53 \<le> e"
  proof (rule ccontr)
    assume "\<not> - 53 \<le> e"
    then have "e + 53 \<le> - 1" "e < 971" by simp_all
    with hi have "f < 2 powi (e + 53)" by simp
    also from \<open>e + 53 \<le> - 1\<close> have "(2::real) powi (e + 53) \<le> 2 powi (- 1)"
      by (intro power_int_increasing) simp_all
    finally show False using False by (simp add: power_int_minus)
  qed
  ultimately have e: "e = - 53" by simp
  define m where "m = rne (f / 2 powi e)"
  have "fl f = of_int m * 2 powi e"
    by (simp add: fl_def Let_def pos e_def m_def)
  with assms(1) have "f = of_int m * 2 powi e"
    by (simp add: is_double_def)
  moreover have "(2::real) powi e = 1 / 2 ^ 53"
    unfolding e by (simp add: power_int_minus)
  ultimately have f: "f = of_int m / 2 ^ 53"
    by simp
  from assms(2) have "real_of_int m < real_of_int (2 ^ 53)"
    by (simp add: f divide_less_eq)
  then have "m < 2 ^ 53"
    by (simp only: of_int_less_iff)
  then have "m \<le> 2 ^ 53 - 1" by simp
  then have "real_of_int m \<le> real_of_int (2 ^ 53 - 1)"
    by (simp only: of_int_le_iff)
  then show ?thesis
    by (simp add: f field_simps)
qed

lemma fl_below:
  assumes d: "is_double d" and e: "- 1074 < quantum d"
    and z: "0 \<le> z" "z \<le> d - d / 2 ^ 53"
  shows "fl z < d"
proof (rule ccontr)
  assume "\<not> fl z < d"
  define e where "e = quantum d"
  define ez where "ez = quantum z"
  from e quantum_bounds [of d] have lo: "2 powi (e + 52) \<le> d"
    by (simp add: e_def)
  then have dpos: "0 < d"
    using zero_less_power_int [of "2::real" "e + 52"] by linarith
  with z have zd: "z \<le> d" "\<bar>z\<bar> = z"
    by (simp_all add: field_simps)
  then have "fl z \<le> fl d"
    by (intro fl_mono) simp
  with d \<open>\<not> fl z < d\<close> have eq: "fl z = d"
    by (simp add: is_double_def)
  from zd have ez_le: "ez \<le> e"
    unfolding ez_def e_def by (intro quantum_mono) simp
  have qz: "(0::real) < 2 powi ez" by simp
  have "\<bar>z / 2 powi ez - of_int (rne (z / 2 powi ez))\<bar> \<le> 1 / 2"
    by (rule rne_close)
  then have "\<bar>z / 2 powi ez - of_int (rne (z / 2 powi ez))\<bar> * 2 powi ez \<le> 1 / 2 * 2 powi ez"
    using qz by (simp only: mult_le_cancel_right_pos)
  moreover have "\<bar>z / 2 powi ez - of_int (rne (z / 2 powi ez))\<bar> * 2 powi ez = \<bar>z - fl z\<bar>"
  proof -
    have "\<bar>z / 2 powi ez - of_int (rne (z / 2 powi ez))\<bar> * 2 powi ez
        = \<bar>(z / 2 powi ez - of_int (rne (z / 2 powi ez))) * 2 powi ez\<bar>"
      by (simp add: abs_mult)
    also have "(z / 2 powi ez - of_int (rne (z / 2 powi ez))) * 2 powi ez = z - fl z"
      by (simp add: fl_def Let_def zd ez_def algebra_simps)
    finally show ?thesis .
  qed
  ultimately have near: "d - z \<le> 2 powi ez / 2"
    using zd by (simp add: eq)
  have half: "(2::real) powi (e + 52) / 2 ^ 53 = 2 powi e / 2"
    by (simp add: power_int_add)
  from lo have "2 powi (e + 52) / 2 ^ 53 \<le> d / 2 ^ 53"
    by (simp add: divide_right_mono)
  with half have low: "2 powi e / 2 \<le> d / 2 ^ 53"
    by simp
  with z have far: "2 powi e / 2 \<le> d - z"
    by linarith
  from ez_le have "(2::real) powi ez \<le> 2 powi e"
    by (intro power_int_increasing) simp_all
  with near far low have same: "(2::real) powi ez = 2 powi e" and dz: "d - z = 2 powi e / 2"
    and dd: "d / 2 ^ 53 = 2 powi e / 2"
    using z by linarith+
  have "ez = e"
  proof (rule ccontr)
    assume "ez \<noteq> e"
    with ez_le have "ez < e" by simp
    then have "(2::real) powi ez < 2 powi e"
      by (intro power_int_strict_increasing) simp_all
    with same show False by simp
  qed
  with e quantum_bounds [of z] have "2 powi (e + 52) \<le> z"
    by (simp add: ez_def e_def)
  moreover from dd have "d = 2 powi (e + 52)"
    by (simp add: power_int_add field_simps)
  ultimately show False
    using dz zero_less_power_int [of "2::real" e] by linarith
qed

lemma lerp_between_up:
  assumes c: "is_double c" and t: "is_double t"
    and f: "is_double f" "0 \<le> f" "f < 1" and le: "c \<le> t"
  shows "c \<le> lerp c t f \<and> lerp c t f \<le> t"
proof -
  define y where "y = t - c"
  define d where "d = fl y"
  define x where "x = fl (d * f)"
  from le have y: "0 \<le> y" by (simp add: y_def)
  then have d: "0 \<le> d"
    unfolding d_def by (rule fl_nonneg)
  with f have df: "0 \<le> d * f" "d * f \<le> d"
    by (simp_all add: mult_left_le)
  then have x: "0 \<le> x"
    unfolding x_def by (intro fl_nonneg)
  have dd: "is_double d" "is_double x"
    by (simp_all add: d_def x_def)
  from df(2) have "fl (d * f) \<le> fl d"
    by (rule fl_mono)
  with dd(1) have xd: "x \<le> d"
    by (simp add: x_def is_double_def)
  have "x \<le> y"
  proof (cases "d \<le> y")
    case True
    with xd show ?thesis by simp
  next
    case False
    then have up: "t - c < fl (t - c)"
      by (simp add: d_def y_def)
    from rounded_difference_normal [OF c t _ up] y have normal: "- 1074 < quantum d"
      by (simp add: d_def y_def)
    from double_below_one [OF f(1) f(3)] d have "d * f \<le> d * (1 - 1 / 2 ^ 53)"
      by (intro mult_left_mono) simp_all
    then have "d * f \<le> d - d / 2 ^ 53"
      by (simp add: algebra_simps)
    from fl_below [OF dd(1) normal df(1) this] have less: "x < d"
      by (simp add: x_def)
    show ?thesis
    proof (rule ccontr)
      assume "\<not> x \<le> y"
      then have "fl y \<le> fl x"
        by (intro fl_mono) simp
      with dd(2) less show False
        by (simp add: d_def is_double_def)
    qed
  qed
  with x have "c \<le> c + x" "c + x \<le> t"
    by (simp_all add: y_def)
  then have "fl c \<le> fl (c + x)" "fl (c + x) \<le> fl t"
    by (simp_all only: fl_mono)
  with c t show ?thesis
    by (simp add: lerp_def num_add_def num_mul_def num_sub_def is_double_def d_def x_def y_def)
qed

lemma lerp_between_down:
  assumes c: "is_double c" and t: "is_double t"
    and f: "is_double f" "0 \<le> f" "f < 1" and le: "t \<le> c"
  shows "t \<le> lerp c t f \<and> lerp c t f \<le> c"
proof -
  have neg: "is_double (- c)" "is_double (- t)"
    using c t by (simp_all add: is_double_def fl_minus)
  have "lerp (- c) (- t) f = - lerp c t f"
    using fl_minus [of "t - c"] fl_minus [of "fl (t - c) * f"]
      fl_minus [of "c + fl (fl (t - c) * f)"]
    by (simp add: lerp_def num_add_def num_mul_def num_sub_def)
  with lerp_between_up [OF neg f] le show ?thesis
    by simp
qed

lemma lerp_double [simp]: "is_double (lerp c t f)"
  by (simp add: lerp_def num_add_def)

lemma rounding_slack_mono: "a \<le> b \<Longrightarrow> rounding_slack a \<le> rounding_slack b"
  by (simp add: rounding_slack_def divide_right_mono)

lemma lerp_error:
  assumes f: "0 \<le> f" "f \<le> 1"
  shows "\<bar>lerp c t f - lerp_spec c t f\<bar> \<le> rounding_slack (max \<bar>c\<bar> \<bar>t\<bar>)"
proof -
  define M where "M = max \<bar>c\<bar> \<bar>t\<bar>"
  define d where "d = t - c"
  define y where "y = fl d"
  define x where "x = fl (y * f)"
  define h where "h = MIN_VALUE / 2"
  define ad where "ad = \<bar>d\<bar>"
  define a1 where "a1 = \<bar>y - d\<bar>"
  define ay where "ay = \<bar>y\<bar>"
  define ayf where "ayf = \<bar>y * f\<bar>"
  define a1f where "a1f = \<bar>(y - d) * f\<bar>"
  define a2 where "a2 = \<bar>x - y * f\<bar>"
  define ax where "ax = \<bar>x\<bar>"
  define az where "az = \<bar>c + x\<bar>"
  define a3 where "a3 = \<bar>fl (c + x) - (c + x)\<bar>"
  have h: "0 \<le> h"
    using MIN_VALUE_range by (simp add: h_def)
  have M: "0 \<le> M" "\<bar>c\<bar> \<le> M"
    by (simp_all add: M_def)
  have D: "ad \<le> 2 * M"
    unfolding ad_def d_def M_def by linarith
  have e1: "a1 \<le> ad / 2 ^ 53 + h"
    unfolding a1_def ad_def y_def h_def by (rule fl_error)
  have Y: "ay \<le> ad + a1"
    unfolding ay_def ad_def a1_def by linarith
  have YF: "ayf \<le> ay"
    unfolding ayf_def ay_def using f by (simp add: abs_mult mult_left_le)
  have e1f: "a1f \<le> a1"
    unfolding a1f_def a1_def using f by (simp add: abs_mult mult_left_le)
  have e2: "a2 \<le> ayf / 2 ^ 53 + h"
    unfolding a2_def ayf_def x_def h_def by (rule fl_error)
  have X: "ax \<le> ayf + a2"
    unfolding ax_def ayf_def a2_def by linarith
  have Z: "az \<le> M + ax"
    unfolding az_def ax_def using M(2) by linarith
  have e3: "a3 \<le> az / 2 ^ 53 + h"
    unfolding a3_def az_def h_def by (rule fl_error)
  have "lerp c t f - lerp_spec c t f = (fl (c + x) - (c + x)) + (x - y * f) + (y - d) * f"
    by (simp add: lerp_def lerp_spec_def num_add_def num_mul_def num_sub_def x_def y_def d_def
        algebra_simps)
  then have "\<bar>lerp c t f - lerp_spec c t f\<bar> \<le> a3 + a2 + a1f"
    unfolding a3_def a2_def a1f_def by linarith
  also from h M(1) D e1 Y YF e1f e2 X Z e3 have "a3 + a2 + a1f \<le> M / 2 ^ 50 + 4 * h"
    by simp
  finally show ?thesis
    by (simp add: rounding_slack_def M_def h_def)
qed

lemma lerp_contracts:
  assumes f: "0 \<le> f" "f \<le> 1"
  shows "\<bar>t - lerp c t f\<bar> \<le> (1 - f) * \<bar>t - c\<bar> + rounding_slack (max \<bar>c\<bar> \<bar>t\<bar>)"
    and "(1 - f) * \<bar>t - c\<bar> - rounding_slack (max \<bar>c\<bar> \<bar>t\<bar>) \<le> \<bar>t - lerp c t f\<bar>"
proof -
  from f have "\<bar>t - lerp_spec c t f\<bar> = (1 - f) * \<bar>t - c\<bar>"
    by (simp add: lerp_spec_distance abs_mult)
  with lerp_error [OF f, of c t]
  show "\<bar>t - lerp c t f\<bar> \<le> (1 - f) * \<bar>t - c\<bar> + rounding_slack (max \<bar>c\<bar> \<bar>t\<bar>)"
    and "(1 - f) * \<bar>t - c\<bar> - rounding_slack (max \<bar>c\<bar> \<bar>t\<bar>) \<le> \<bar>t - lerp c t f\<bar>"
    by linarith+
qed

lemma lerp_progress:
  assumes f: "0 \<le> f" "f \<le> 1" and far: "rounding_slack (max \<bar>c\<bar> \<bar>t\<bar>) < f * \<bar>t - c\<bar>"
  shows "\<bar>t - lerp c t f\<bar> < \<bar>t - c\<bar>"
proof -
  have "(1 - f) * \<bar>t - c\<bar> = \<bar>t - c\<bar> - f * \<bar>t - c\<bar>"
    by (simp add: algebra_simps)
  with lerp_contracts(1) [OF f, of t c] far show ?thesis
    by linarith
qed

lemma contraction_upper:
  fixes a :: "nat \<Rightarrow> real"
  assumes step: "\<And>n. a (Suc n) \<le> (1 - f) * a n + e" and f: "0 < f" "f \<le> 1" and e: "0 \<le> e"
  shows "a n \<le> (1 - f) ^ n * a 0 + e / f"
proof (induction n)
  case 0
  from e f show ?case by simp
next
  case (Suc n)
  from Suc f have "(1 - f) * a n \<le> (1 - f) * ((1 - f) ^ n * a 0 + e / f)"
    by (intro mult_left_mono) simp_all
  also from f have "\<dots> = (1 - f) ^ Suc n * a 0 + e / f - e"
    by (simp add: field_simps)
  finally show ?case
    using step [of n] by linarith
qed

lemma contraction_lower:
  fixes a :: "nat \<Rightarrow> real"
  assumes step: "\<And>n. (1 - f) * a n - e \<le> a (Suc n)" and f: "0 < f" "f \<le> 1" and e: "0 \<le> e"
  shows "(1 - f) ^ n * a 0 - e / f \<le> a n"
proof (induction n)
  case 0
  from e f show ?case by simp
next
  case (Suc n)
  from f have "(1 - f) ^ Suc n * a 0 - e / f + e = (1 - f) * ((1 - f) ^ n * a 0 - e / f)"
    by (simp add: field_simps)
  also from Suc f have "\<dots> \<le> (1 - f) * a n"
    by (intro mult_left_mono) simp_all
  finally show ?case
    using step [of n] by linarith
qed

lemma rounding_slack_nonneg: "0 \<le> m \<Longrightarrow> 0 \<le> rounding_slack m"
  using MIN_VALUE_range by (simp add: rounding_slack_def)

text \<open>
  A position that is moved by \<open>lerp\<close> towards a fixed target, step after step, with a factor
  that is a double in \<open>(0, 1)\<close>.
\<close>

lemma lerp_sequence_double:
  assumes step: "\<And>n. s (Suc n) = lerp (s n) t f" and s0: "is_double (s 0)"
  shows "is_double (s n)"
  by (cases n) (simp_all add: s0 step)

lemma lerp_sequence_range:
  assumes step: "\<And>n. s (Suc n) = lerp (s n) t f" and s0: "is_double (s 0)"
    and t: "is_double t" and f: "is_double f" "0 \<le> f" "f < 1"
  shows "min (s 0) t \<le> s n \<and> s n \<le> max (s 0) t"
proof (induction n)
  case 0
  show ?case by simp
next
  case (Suc n)
  note sn = lerp_sequence_double [OF step s0, of n]
  show ?case
  proof (cases "s n \<le> t")
    case True
    from lerp_between_up [OF sn t f True] Suc show ?thesis
      unfolding step by linarith
  next
    case False
    then have "t \<le> s n" by simp
    from lerp_between_down [OF sn t f this] Suc show ?thesis
      unfolding step by linarith
  qed
qed

lemma lerp_sequence_magnitude:
  assumes step: "\<And>n. s (Suc n) = lerp (s n) t f" and s0: "is_double (s 0)"
    and t: "is_double t" and f: "is_double f" "0 \<le> f" "f < 1"
  shows "max \<bar>s n\<bar> \<bar>t\<bar> \<le> max \<bar>s 0\<bar> \<bar>t\<bar>"
  using lerp_sequence_range [OF step s0 t f, of n] by linarith

lemma lerp_sequence_step:
  assumes step: "\<And>n. s (Suc n) = lerp (s n) t f" and s0: "is_double (s 0)"
    and t: "is_double t" and f: "is_double f" "0 \<le> f" "f < 1"
  shows "\<bar>t - s (Suc n)\<bar> \<le> (1 - f) * \<bar>t - s n\<bar> + rounding_slack (max \<bar>s 0\<bar> \<bar>t\<bar>)"
    and "(1 - f) * \<bar>t - s n\<bar> - rounding_slack (max \<bar>s 0\<bar> \<bar>t\<bar>) \<le> \<bar>t - s (Suc n)\<bar>"
proof -
  from f have f1: "f \<le> 1" by simp
  note slack = rounding_slack_mono [OF lerp_sequence_magnitude [OF step s0 t f, of n]]
  from lerp_contracts(1) [OF f(2) f1, of t "s n"] slack
  show "\<bar>t - s (Suc n)\<bar> \<le> (1 - f) * \<bar>t - s n\<bar> + rounding_slack (max \<bar>s 0\<bar> \<bar>t\<bar>)"
    unfolding step by linarith
  from lerp_contracts(2) [OF f(2) f1, of t "s n"] slack
  show "(1 - f) * \<bar>t - s n\<bar> - rounding_slack (max \<bar>s 0\<bar> \<bar>t\<bar>) \<le> \<bar>t - s (Suc n)\<bar>"
    unfolding step by linarith
qed

lemma lerp_sequence_progress:
  assumes step: "\<And>n. s (Suc n) = lerp (s n) t f" and s0: "is_double (s 0)"
    and t: "is_double t" and f: "is_double f" "0 \<le> f" "f < 1"
    and far: "rounding_slack (max \<bar>s 0\<bar> \<bar>t\<bar>) < f * \<bar>t - s n\<bar>"
  shows "\<bar>t - s (Suc n)\<bar> < \<bar>t - s n\<bar>"
proof -
  have "(1 - f) * \<bar>t - s n\<bar> = \<bar>t - s n\<bar> - f * \<bar>t - s n\<bar>"
    by (simp add: algebra_simps)
  with lerp_sequence_step(1) [OF step s0 t f, of n] far show ?thesis
    by linarith
qed

lemma lerp_sequence_upper:
  assumes step: "\<And>n. s (Suc n) = lerp (s n) t f" and s0: "is_double (s 0)"
    and t: "is_double t" and f: "is_double f" "0 < f" "f < 1"
  shows "\<bar>t - s n\<bar> \<le> (1 - f) ^ n * \<bar>t - s 0\<bar> + rounding_slack (max \<bar>s 0\<bar> \<bar>t\<bar>) / f"
proof -
  from f have f': "0 \<le> f" "f \<le> 1" by simp_all
  have "0 \<le> rounding_slack (max \<bar>s 0\<bar> \<bar>t\<bar>)"
    by (rule rounding_slack_nonneg) simp
  from contraction_upper [of "\<lambda>n. \<bar>t - s n\<bar>" f, OF _ f(2) f'(2) this]
    lerp_sequence_step(1) [OF step s0 t f(1) f'(1) f(3)]
  show ?thesis by simp
qed

lemma lerp_sequence_lower:
  assumes step: "\<And>n. s (Suc n) = lerp (s n) t f" and s0: "is_double (s 0)"
    and t: "is_double t" and f: "is_double f" "0 < f" "f < 1"
  shows "(1 - f) ^ n * \<bar>t - s 0\<bar> - rounding_slack (max \<bar>s 0\<bar> \<bar>t\<bar>) / f \<le> \<bar>t - s n\<bar>"
proof -
  from f have f': "0 \<le> f" "f \<le> 1" by simp_all
  have "0 \<le> rounding_slack (max \<bar>s 0\<bar> \<bar>t\<bar>)"
    by (rule rounding_slack_nonneg) simp
  from contraction_lower [of f "\<lambda>n. \<bar>t - s n\<bar>", OF _ f(2) f'(2) this]
    lerp_sequence_step(2) [OF step s0 t f(1) f'(1) f(3)]
  show ?thesis by simp
qed

lemma lit_0_05_range: "is_double (lit 0.05) \<and> 0 \<le> lit 0.05 \<and> lit 0.05 < 1"
proof -
  have "0 \<le> lit 0.05 \<and> lit 0.05 < 1"
    unfolding lit_0_05 by simp
  then show ?thesis
    by (simp add: lit_def)
qed

lemma animate_currentX:
  "currentX (state (fst (animate d p))) = lerp (currentX (state p)) (targetX (state p)) (lit 0.05)"
  by (simp add: animate_def Let_def)

lemma ticks_Suc: "ticks (Suc n) d p = fst (animate d (ticks n d p))"
  by (simp add: ticks_def)

lemma ticks_0 [simp]: "ticks 0 d p = p"
  by (simp add: ticks_def)

lemma ticks_targetX: "targetX (state (ticks n d p)) = targetX (state p)"
  by (induction n) (simp_all add: ticks_Suc animate_keeps_target)

lemma ticks_currentX_double:
  "is_double (currentX (state p)) \<Longrightarrow> is_double (currentX (state (ticks n d p)))"
  by (induction n) (simp_all add: ticks_Suc animate_currentX)

lemma ticks_step:
  "currentX (state (ticks (Suc n) d p))
     = lerp (currentX (state (ticks n d p))) (targetX (state p)) (lit 0.05)"
  by (simp add: ticks_Suc animate_currentX ticks_targetX)

lemma ticks_below:
  assumes "is_double (currentX (state p))" "is_double (targetX (state p))"
    and "currentX (state p) \<le> targetX (state p)"
  shows "currentX (state (ticks n d p)) \<le> targetX (state p)"
proof (induction n)
  case 0
  from assms(3) show ?case by (simp add: ticks_def)
next
  case (Suc n)
  from lerp_between_up [OF ticks_currentX_double [OF assms(1)] assms(2) _ _ _ Suc, of "lit 0.05"]
    lit_0_05_range
  show ?case by (simp add: ticks_step)
qed

lemma ticks_above:
  assumes "is_double (currentX (state p))" "is_double (targetX (state p))"
    and "targetX (state p) \<le> currentX (state p)"
  shows "targetX (state p) \<le> currentX (state (ticks n d p))"
proof (induction n)
  case 0
  from assms(3) show ?case by (simp add: ticks_def)
next
  case (Suc n)
  from lerp_between_down [OF ticks_currentX_double [OF assms(1)] assms(2) _ _ _ Suc, of "lit 0.05"]
    lit_0_05_range
  show ?case by (simp add: ticks_step)
qed

text \<open>
  C5, as the code has it. A page that stands ten units in the last place short of its target
  100 is left where it is by a tick: the step of the interpolation is rounded away, the
  distance stays what it was, and it is not zero.
\<close>

theorem easing_stalls_counterexample:
  "is_double (currentX (state stalled_page)) \<and>
   is_double (targetX (state stalled_page)) \<and>
   targetX (state (fst (animate (document 1440 5000) stalled_page))) = targetX (state stalled_page) \<and>
   currentX (state (fst (animate (document 1440 5000) stalled_page)))
     = currentX (state stalled_page) \<and>
   \<bar>targetX (state stalled_page) - currentX (state stalled_page)\<bar> \<noteq> 0 \<and>
   \<not> \<bar>targetX (state (fst (animate (document 1440 5000) stalled_page)))
         - currentX (state (fst (animate (document 1440 5000) stalled_page)))\<bar>
       < \<bar>targetX (state stalled_page) - currentX (state stalled_page)\<bar>"
proof -
  have step: "lerp stall_position 100 (lit 0.05) = stall_position"
    unfolding stall_position_def by (simp add: lerp_def num_eval)
  have doubles: "is_double stall_position" "is_double 100"
    unfolding stall_position_def is_double_def by (simp_all add: num_eval)
  have apart: "stall_position \<noteq> 100"
    by (simp add: stall_position_def)
  have fields: "currentX (state stalled_page) = stall_position"
    "targetX (state stalled_page) = 100"
    by (simp_all add: stalled_page_def)
  have tick: "currentX (state (fst (animate (document 1440 5000) stalled_page))) = stall_position"
    unfolding animate_currentX fields step ..
  show ?thesis
    using apart by (simp add: tick animate_keeps_target fields doubles)
qed

text \<open>
  C5, amended. In exact arithmetic, for every factor in \<open>(0, 1)\<close>, one interpolation step
  multiplies the distance to the target by \<open>1 - factor\<close> and keeps its sign. The code takes
  the step in binary64. There, for a position and a target that are doubles (of magnitude
  up to \<open>2 ^ 1022\<close>, so that their difference does not overflow), and every factor that is
  a double in \<open>[0, 1)\<close>, the result lies between the position and the target, it differs
  from the exact result by no more than the rounding slack of the larger magnitude, and it is
  strictly nearer to the target whenever the factor times the distance exceeds that slack.
  So with the factor 0.05 of the tick the target stays fixed, the position after each tick
  lies between the position before it and the target, the target is never overshot, the
  distance to the target never increases, it strictly decreases with every tick that changes
  the position at all, and it does so with every tick for which 0.05 times the distance
  exceeds the rounding slack; after \<open>n\<close> ticks the distance is at most \<open>(1 - 0.05) ^ n\<close>
  times the distance at the start plus twenty times the slack. Only at the scale of the
  rounding does the approach come to rest.
\<close>

theorem easing_approaches_target:
  "(0 < f \<and> f < 1 \<longrightarrow>
      \<bar>t - lerp_spec c t f\<bar> = (1 - f) * \<bar>t - c\<bar> \<and>
      (c \<noteq> t \<longrightarrow> \<bar>t - lerp_spec c t f\<bar> < \<bar>t - c\<bar>) \<and>
      sgn (t - lerp_spec c t f) = sgn (t - c)) \<and>
   (safe_double c \<and> safe_double t \<and> is_double f \<and> 0 \<le> f \<and> f < 1 \<longrightarrow>
      (c \<le> t \<longrightarrow> c \<le> lerp c t f \<and> lerp c t f \<le> t) \<and>
      (t \<le> c \<longrightarrow> t \<le> lerp c t f \<and> lerp c t f \<le> c) \<and>
      \<bar>lerp c t f - lerp_spec c t f\<bar> \<le> rounding_slack (max \<bar>c\<bar> \<bar>t\<bar>) \<and>
      (rounding_slack (max \<bar>c\<bar> \<bar>t\<bar>) < f * \<bar>t - c\<bar> \<longrightarrow> \<bar>t - lerp c t f\<bar> < \<bar>t - c\<bar>)) \<and>
   (safe_double (currentX (state p)) \<and> safe_double (targetX (state p)) \<longrightarrow>
      targetX (state (ticks n d p)) = targetX (state p) \<and>
      (currentX (state p) \<le> targetX (state p) \<longrightarrow>
         currentX (state (ticks n d p)) \<le> currentX (state (ticks (Suc n) d p)) \<and>
         currentX (state (ticks (Suc n) d p)) \<le> targetX (state p)) \<and>
      (targetX (state p) \<le> currentX (state p) \<longrightarrow>
         targetX (state p) \<le> currentX (state (ticks (Suc n) d p)) \<and>
         currentX (state (ticks (Suc n) d p)) \<le> currentX (state (ticks n d p))) \<and>
      \<bar>targetX (state p) - currentX (state (ticks (Suc n) d p))\<bar>
        \<le> \<bar>targetX (state p) - currentX (state (ticks n d p))\<bar> \<and>
      (currentX (state (ticks (Suc n) d p)) \<noteq> currentX (state (ticks n d p)) \<longrightarrow>
         \<bar>targetX (state p) - currentX (state (ticks (Suc n) d p))\<bar>
           < \<bar>targetX (state p) - currentX (state (ticks n d p))\<bar>) \<and>
      (rounding_slack (max \<bar>currentX (state p)\<bar> \<bar>targetX (state p)\<bar>)
           < lit 0.05 * \<bar>targetX (state p) - currentX (state (ticks n d p))\<bar> \<longrightarrow>
         \<bar>targetX (state p) - currentX (state (ticks (Suc n) d p))\<bar>
           < \<bar>targetX (state p) - currentX (state (ticks n d p))\<bar>) \<and>
      \<bar>targetX (state p) - currentX (state (ticks n d p))\<bar>
        \<le> (1 - lit 0.05) ^ n * \<bar>targetX (state p) - currentX (state p)\<bar>
          + rounding_slack (max \<bar>currentX (state p)\<bar> \<bar>targetX (state p)\<bar>) / lit 0.05)"
proof -
  have exact:
    "0 < f \<and> f < 1 \<longrightarrow>
       \<bar>t - lerp_spec c t f\<bar> = (1 - f) * \<bar>t - c\<bar> \<and>
       (c \<noteq> t \<longrightarrow> \<bar>t - lerp_spec c t f\<bar> < \<bar>t - c\<bar>) \<and>
       sgn (t - lerp_spec c t f) = sgn (t - c)"
  proof (intro conjI impI)
    assume f: "0 < f \<and> f < 1"
    have dist: "t - lerp_spec c t f = (1 - f) * (t - c)"
      by (rule lerp_spec_distance)
    from f show exact: "\<bar>t - lerp_spec c t f\<bar> = (1 - f) * \<bar>t - c\<bar>"
      by (simp add: dist abs_mult)
    from f show "sgn (t - lerp_spec c t f) = sgn (t - c)"
      by (simp add: dist sgn_mult)
    assume "c \<noteq> t"
    then have "0 < \<bar>t - c\<bar>" by simp
    with f have "(1 - f) * \<bar>t - c\<bar> < 1 * \<bar>t - c\<bar>"
      by (intro mult_strict_right_mono) simp_all
    then show "\<bar>t - lerp_spec c t f\<bar> < \<bar>t - c\<bar>"
      by (simp add: exact)
  qed
  have machine:
    "safe_double c \<and> safe_double t \<and> is_double f \<and> 0 \<le> f \<and> f < 1 \<longrightarrow>
       (c \<le> t \<longrightarrow> c \<le> lerp c t f \<and> lerp c t f \<le> t) \<and>
       (t \<le> c \<longrightarrow> t \<le> lerp c t f \<and> lerp c t f \<le> c) \<and>
       \<bar>lerp c t f - lerp_spec c t f\<bar> \<le> rounding_slack (max \<bar>c\<bar> \<bar>t\<bar>) \<and>
       (rounding_slack (max \<bar>c\<bar> \<bar>t\<bar>) < f * \<bar>t - c\<bar> \<longrightarrow> \<bar>t - lerp c t f\<bar> < \<bar>t - c\<bar>)"
  proof (intro conjI impI)
    assume h: "safe_double c \<and> safe_double t \<and> is_double f \<and> 0 \<le> f \<and> f < 1"
    then have f: "0 \<le> f" "f \<le> 1" by simp_all
    {
      assume "c \<le> t"
      with h show "c \<le> lerp c t f" "lerp c t f \<le> t"
        using lerp_between_up [of c t f] by (simp_all add: safe_double_def)
    }
    {
      assume "t \<le> c"
      with h show "t \<le> lerp c t f" "lerp c t f \<le> c"
        using lerp_between_down [of c t f] by (simp_all add: safe_double_def)
    }
    show "\<bar>lerp c t f - lerp_spec c t f\<bar> \<le> rounding_slack (max \<bar>c\<bar> \<bar>t\<bar>)"
      using f by (rule lerp_error)
    assume "rounding_slack (max \<bar>c\<bar> \<bar>t\<bar>) < f * \<bar>t - c\<bar>"
    with f show "\<bar>t - lerp c t f\<bar> < \<bar>t - c\<bar>"
      by (rule lerp_progress)
  qed
  have run:
    "safe_double (currentX (state p)) \<and> safe_double (targetX (state p)) \<longrightarrow>
       targetX (state (ticks n d p)) = targetX (state p) \<and>
       (currentX (state p) \<le> targetX (state p) \<longrightarrow>
          currentX (state (ticks n d p)) \<le> currentX (state (ticks (Suc n) d p)) \<and>
          currentX (state (ticks (Suc n) d p)) \<le> targetX (state p)) \<and>
       (targetX (state p) \<le> currentX (state p) \<longrightarrow>
          targetX (state p) \<le> currentX (state (ticks (Suc n) d p)) \<and>
          currentX (state (ticks (Suc n) d p)) \<le> currentX (state (ticks n d p))) \<and>
       \<bar>targetX (state p) - currentX (state (ticks (Suc n) d p))\<bar>
         \<le> \<bar>targetX (state p) - currentX (state (ticks n d p))\<bar> \<and>
       (currentX (state (ticks (Suc n) d p)) \<noteq> currentX (state (ticks n d p)) \<longrightarrow>
          \<bar>targetX (state p) - currentX (state (ticks (Suc n) d p))\<bar>
            < \<bar>targetX (state p) - currentX (state (ticks n d p))\<bar>) \<and>
       (rounding_slack (max \<bar>currentX (state p)\<bar> \<bar>targetX (state p)\<bar>)
            < lit 0.05 * \<bar>targetX (state p) - currentX (state (ticks n d p))\<bar> \<longrightarrow>
          \<bar>targetX (state p) - currentX (state (ticks (Suc n) d p))\<bar>
            < \<bar>targetX (state p) - currentX (state (ticks n d p))\<bar>) \<and>
       \<bar>targetX (state p) - currentX (state (ticks n d p))\<bar>
         \<le> (1 - lit 0.05) ^ n * \<bar>targetX (state p) - currentX (state p)\<bar>
           + rounding_slack (max \<bar>currentX (state p)\<bar> \<bar>targetX (state p)\<bar>) / lit 0.05"
  proof (intro conjI impI)
    show "targetX (state (ticks n d p)) = targetX (state p)"
      by (rule ticks_targetX)
  next
    assume "safe_double (currentX (state p)) \<and> safe_double (targetX (state p))"
    then have doubles: "is_double (currentX (state p)) \<and> is_double (targetX (state p))"
      by (simp add: safe_double_def)
    then have cn: "is_double (currentX (state (ticks n d p)))"
      by (simp add: ticks_currentX_double)
    from doubles have c0: "is_double (currentX (state (ticks 0 d p)))"
      and t: "is_double (targetX (state p))"
      by simp_all
    from lit_0_05_range have f: "is_double (lit 0.05)" "0 \<le> lit 0.05" "lit 0.05 < 1"
      by simp_all
    have pos: "0 < lit 0.05"
      unfolding lit_0_05 by simp
    note up = lerp_between_up [OF cn _ _ _ _ _, of "targetX (state p)" "lit 0.05"]
    note down = lerp_between_down [OF cn _ _ _ _ _, of "targetX (state p)" "lit 0.05"]
    {
      assume le: "currentX (state p) \<le> targetX (state p)"
      with doubles have "currentX (state (ticks n d p)) \<le> targetX (state p)"
        by (simp add: ticks_below)
      with up doubles lit_0_05_range
      show "currentX (state (ticks n d p)) \<le> currentX (state (ticks (Suc n) d p))"
        "currentX (state (ticks (Suc n) d p)) \<le> targetX (state p)"
        by (simp_all add: ticks_step)
    }
    {
      assume ge: "targetX (state p) \<le> currentX (state p)"
      with doubles have "targetX (state p) \<le> currentX (state (ticks n d p))"
        by (simp add: ticks_above)
      with down doubles lit_0_05_range
      show "targetX (state p) \<le> currentX (state (ticks (Suc n) d p))"
        "currentX (state (ticks (Suc n) d p)) \<le> currentX (state (ticks n d p))"
        by (simp_all add: ticks_step)
    }
    have between:
      "(currentX (state (ticks n d p)) \<le> currentX (state (ticks (Suc n) d p)) \<and>
        currentX (state (ticks (Suc n) d p)) \<le> targetX (state p)) \<or>
       (targetX (state p) \<le> currentX (state (ticks (Suc n) d p)) \<and>
        currentX (state (ticks (Suc n) d p)) \<le> currentX (state (ticks n d p)))"
    proof (cases "currentX (state (ticks n d p)) \<le> targetX (state p)")
      case True
      with up doubles lit_0_05_range show ?thesis
        by (simp add: ticks_step)
    next
      case False
      then have "targetX (state p) \<le> currentX (state (ticks n d p))" by simp
      with down doubles lit_0_05_range show ?thesis
        by (simp add: ticks_step)
    qed
    then show "\<bar>targetX (state p) - currentX (state (ticks (Suc n) d p))\<bar>
        \<le> \<bar>targetX (state p) - currentX (state (ticks n d p))\<bar>"
      by linarith
    {
      assume "currentX (state (ticks (Suc n) d p)) \<noteq> currentX (state (ticks n d p))"
      with between show "\<bar>targetX (state p) - currentX (state (ticks (Suc n) d p))\<bar>
          < \<bar>targetX (state p) - currentX (state (ticks n d p))\<bar>"
        by linarith
    }
    {
      assume "rounding_slack (max \<bar>currentX (state p)\<bar> \<bar>targetX (state p)\<bar>)
          < lit 0.05 * \<bar>targetX (state p) - currentX (state (ticks n d p))\<bar>"
      with lerp_sequence_progress
        [of "\<lambda>n. currentX (state (ticks n d p))" "targetX (state p)" "lit 0.05" n,
          OF ticks_step c0 t f]
      show "\<bar>targetX (state p) - currentX (state (ticks (Suc n) d p))\<bar>
          < \<bar>targetX (state p) - currentX (state (ticks n d p))\<bar>"
        by simp
    }
    from lerp_sequence_upper
      [of "\<lambda>n. currentX (state (ticks n d p))" "targetX (state p)" "lit 0.05" n,
        OF ticks_step c0 t f(1) pos f(3)]
    show "\<bar>targetX (state p) - currentX (state (ticks n d p))\<bar>
        \<le> (1 - lit 0.05) ^ n * \<bar>targetX (state p) - currentX (state p)\<bar>
          + rounding_slack (max \<bar>currentX (state p)\<bar> \<bar>targetX (state p)\<bar>) / lit 0.05"
      by simp
  qed
  show ?thesis
    by (intro conjI exact machine run)
qed

theorem easing_approaches_target_witness:
  "(0::real) < 1 / 2 \<and> (1 / 2::real) < 1 \<and>
   \<bar>100 - lerp_spec 0 100 (1 / 2)\<bar> = (1 - 1 / 2) * \<bar>100 - 0\<bar> \<and>
   (0::real) \<noteq> 100 \<and> \<bar>100 - lerp_spec 0 100 (1 / 2)\<bar> < \<bar>100 - 0\<bar> \<and>
   safe_double 0 \<and> safe_double 100 \<and> is_double (lit 0.05) \<and> 0 \<le> lit 0.05 \<and> lit 0.05 < 1 \<and>
   (0::real) \<le> 100 \<and>
   0 \<le> lerp 0 100 (lit 0.05) \<and> lerp 0 100 (lit 0.05) \<le> 100 \<and>
   rounding_slack (max \<bar>0\<bar> \<bar>100\<bar>) < lit 0.05 * \<bar>100 - 0\<bar> \<and>
   \<bar>100 - lerp 0 100 (lit 0.05)\<bar> < \<bar>100 - 0\<bar> \<and>
   safe_double (currentX (state wheeled_page)) \<and> safe_double (targetX (state wheeled_page)) \<and>
   currentX (state wheeled_page) \<le> targetX (state wheeled_page) \<and>
   currentX (state (ticks 0 (document 1440 5000) wheeled_page))
     \<le> currentX (state (ticks (Suc 0) (document 1440 5000) wheeled_page)) \<and>
   currentX (state (ticks (Suc 0) (document 1440 5000) wheeled_page))
     \<le> targetX (state wheeled_page) \<and>
   currentX (state (ticks (Suc 0) (document 1440 5000) wheeled_page))
     \<noteq> currentX (state (ticks 0 (document 1440 5000) wheeled_page)) \<and>
   rounding_slack (max \<bar>currentX (state wheeled_page)\<bar> \<bar>targetX (state wheeled_page)\<bar>)
     < lit 0.05 * \<bar>targetX (state wheeled_page)
         - currentX (state (ticks 0 (document 1440 5000) wheeled_page))\<bar> \<and>
   \<bar>targetX (state wheeled_page) - currentX (state (ticks (Suc 0) (document 1440 5000) wheeled_page))\<bar>
     < \<bar>targetX (state wheeled_page) - currentX (state (ticks 0 (document 1440 5000) wheeled_page))\<bar>"
proof -
  have "is_double 100"
    by (simp add: is_double_def num_eval)
  then have hundred: "safe_double 100" "safe_double 0"
    by (simp_all add: safe_double_def)
  have fields: "currentX (state wheeled_page) = 0" "targetX (state wheeled_page) = 100"
    by (simp_all add: wheeled_page_def)
  have first: "lerp 0 100 (3602879701896397 / 2 ^ 56) = 5"
    by (simp add: lerp_def num_eval)
  have "lerp 0 100 (lit 0.05) = 5"
    unfolding lit_0_05 by (rule first)
  then have step: "lerp 0 100 (lit (1 / 20)) = 5"
    by simp
  have "rounding_slack 100 < 1"
    using MIN_VALUE_range by (simp add: rounding_slack_def)
  moreover have "1 < lit 0.05 * 100"
    unfolding lit_0_05 by simp
  ultimately have far: "rounding_slack 100 < lit 0.05 * 100"
    by simp
  have start: "currentX (state (ticks 0 (document 1440 5000) wheeled_page)) = 0"
    by (simp add: ticks_def fields)
  have moved: "currentX (state (ticks (Suc 0) (document 1440 5000) wheeled_page)) = 5"
    unfolding ticks_step start fields lit_0_05 first by (rule refl)
  show ?thesis
    using easing_approaches_target [of "1 / 2" 100 0 wheeled_page 0 "document 1440 5000"]
      easing_approaches_target [of "lit 0.05" 100 0 wheeled_page 0 "document 1440 5000"]
      lit_0_05_range far
    by (simp add: hundred fields moved step)
qed

section \<open>The eased cursor\<close>

lemma lit_0_15_range: "is_double (lit 0.15) \<and> 0 \<le> lit 0.15 \<and> lit 0.15 < 1"
proof -
  have "0 \<le> lit 0.15 \<and> lit 0.15 < 1"
    unfolding lit_0_15 by simp
  then show ?thesis
    by (simp add: lit_def)
qed

lemma ticks_mouse: "mouse (ticks n d p) = mouse p"
  by (induction n) (simp_all add: ticks_Suc animate_def Let_def)

lemma cursor_step:
  "xpos (cursor (ticks (Suc n) d p))
     = lerp (xpos (cursor (ticks n d p))) (xpos (mouse p)) (lit 0.15)"
proof -
  have "xpos (cursor (fst (animate d q))) = lerp (xpos (cursor q)) (xpos (mouse q)) (lit 0.15)"
    for q
    by (simp add: animate_def Let_def)
  then show ?thesis
    by (simp add: ticks_Suc ticks_mouse)
qed

lemma cursor_double:
  "is_double (xpos (cursor p)) \<Longrightarrow> is_double (xpos (cursor (ticks n d p)))"
  by (induction n) (simp_all add: cursor_step)

lemma cursor_rises:
  assumes "is_double (xpos (cursor p))" "is_double (xpos (mouse p))"
    and "xpos (cursor p) \<le> xpos (mouse p)"
  shows "xpos (cursor (ticks n d p)) \<le> xpos (cursor (ticks (Suc n) d p)) \<and>
    xpos (cursor (ticks (Suc n) d p)) \<le> xpos (mouse p)"
proof -
  have below: "xpos (cursor (ticks k d p)) \<le> xpos (mouse p)" for k
  proof (induction k)
    case 0
    from assms(3) show ?case by (simp add: ticks_def)
  next
    case (Suc k)
    from lerp_between_up [OF cursor_double [OF assms(1)] assms(2) _ _ _ Suc, of "lit 0.15"]
      lit_0_15_range
    show ?case by (simp add: cursor_step)
  qed
  from lerp_between_up [OF cursor_double [OF assms(1)] assms(2) _ _ _ below [of n], of "lit 0.15"]
    lit_0_15_range
  show ?thesis by (simp add: cursor_step)
qed

lemma cursor_mono:
  assumes "is_double (xpos (cursor p))" "is_double (xpos (mouse p))"
    and "xpos (cursor p) \<le> xpos (mouse p)" and "m \<le> n"
  shows "xpos (cursor (ticks m d p)) \<le> xpos (cursor (ticks n d p))"
  using assms(4)
proof (rule lift_Suc_mono_le [rotated])
  fix k
  from cursor_rises [OF assms(1-3)]
  show "xpos (cursor (ticks k d p)) \<le> xpos (cursor (ticks (Suc k) d p))"
    by simp
qed

text \<open>
  The cursor's horizontal position on its way from 0 to a pointer at 500, tick by tick in
  binary64, at the ticks 30, 38 and 39.
\<close>

lemma cursor_chain:
  assumes start: "xpos (cursor p) = 0" and mouse: "xpos (mouse p) = 500"
  shows "xpos (cursor (ticks 30 d p)) = 8728972150982125 / 2 ^ 44 \<and>
    xpos (cursor (ticks 38 d p)) = 4388901610383291 / 2 ^ 43 \<and>
    xpos (cursor (ticks 39 d p)) = 8780546690982795 / 2 ^ 44"
proof -
  have c0: "xpos (cursor (ticks 0 d p)) = 0"
    by (simp add: ticks_def start)
  have s1: "lerp (0) 500 (5404319552844595 / 2 ^ 55) = 75"
    by (simp add: lerp_def num_eval)
  have c1: "xpos (cursor (ticks 1 d p)) = 75"
    using cursor_step [of 0 d p] unfolding c0 mouse lit_0_15 s1 by simp
  have s2: "lerp (75) 500 (5404319552844595 / 2 ^ 55) = 555 / 2 ^ 2"
    by (simp add: lerp_def num_eval)
  have c2: "xpos (cursor (ticks 2 d p)) = 555 / 2 ^ 2"
    using cursor_step [of 1 d p] unfolding c1 mouse lit_0_15 s2 by (simp add: numeral_2_eq_2)
  have s3: "lerp (555 / 2 ^ 2) 500 (5404319552844595 / 2 ^ 55) = 3087 / 2 ^ 4"
    by (simp add: lerp_def num_eval)
  have c3: "xpos (cursor (ticks 3 d p)) = 3087 / 2 ^ 4"
    using cursor_step [of 2 d p] unfolding c2 mouse lit_0_15 s3 by simp
  have s4: "lerp (3087 / 2 ^ 4) 500 (5404319552844595 / 2 ^ 55) = 4204477489034035 / 2 ^ 44"
    by (simp add: lerp_def num_eval)
  have c4: "xpos (cursor (ticks 4 d p)) = 4204477489034035 / 2 ^ 44"
    using cursor_step [of 3 d p] unfolding c3 mouse lit_0_15 s4 by simp
  have s5: "lerp (4204477489034035 / 2 ^ 44) 500 (5404319552844595 / 2 ^ 55) = 2446609909505065 / 2 ^ 43"
    by (simp add: lerp_def num_eval)
  have c5: "xpos (cursor (ticks 5 d p)) = 2446609909505065 / 2 ^ 43"
    using cursor_step [of 4 d p] unfolding c4 mouse lit_0_15 s5 by simp
  have s6: "lerp (2446609909505065 / 2 ^ 43) 500 (5404319552844595 / 2 ^ 55) = 2739325399744905 / 2 ^ 43"
    by (simp add: lerp_def num_eval)
  have c6: "xpos (cursor (ticks 6 d p)) = 2739325399744905 / 2 ^ 43"
    using cursor_step [of 5 d p] unfolding c5 mouse lit_0_15 s6 by simp
  have s7: "lerp (2739325399744905 / 2 ^ 43) 500 (5404319552844595 / 2 ^ 55) = 2988133566448769 / 2 ^ 43"
    by (simp add: lerp_def num_eval)
  have c7: "xpos (cursor (ticks 7 d p)) = 2988133566448769 / 2 ^ 43"
    using cursor_step [of 6 d p] unfolding c6 mouse lit_0_15 s7 by simp
  have s8: "lerp (2988133566448769 / 2 ^ 43) 500 (5404319552844595 / 2 ^ 55) = 6399241016294107 / 2 ^ 44"
    by (simp add: lerp_def num_eval)
  have c8: "xpos (cursor (ticks 8 d p)) = 6399241016294107 / 2 ^ 44"
    using cursor_step [of 7 d p] unfolding c7 mouse lit_0_15 s8 by simp
  have s9: "lerp (6399241016294107 / 2 ^ 44) 500 (5404319552844595 / 2 ^ 55) = 6758768817181191 / 2 ^ 44"
    by (simp add: lerp_def num_eval)
  have c9: "xpos (cursor (ticks 9 d p)) = 6758768817181191 / 2 ^ 44"
    using cursor_step [of 8 d p] unfolding c8 mouse lit_0_15 s9 by simp
  have s10: "lerp (6758768817181191 / 2 ^ 44) 500 (5404319552844595 / 2 ^ 55) = 1766091861983803 / 2 ^ 42"
    by (simp add: lerp_def num_eval)
  have c10: "xpos (cursor (ticks 10 d p)) = 1766091861983803 / 2 ^ 42"
    using cursor_step [of 9 d p] unfolding c9 mouse lit_0_15 s10 by simp
  have s11: "lerp (1766091861983803 / 2 ^ 42) 500 (5404319552844595 / 2 ^ 55) = 3662063142038065 / 2 ^ 43"
    by (simp add: lerp_def num_eval)
  have c11: "xpos (cursor (ticks 11 d p)) = 3662063142038065 / 2 ^ 43"
    using cursor_step [of 10 d p] unfolding c10 mouse lit_0_15 s11 by simp
  have s12: "lerp (3662063142038065 / 2 ^ 43) 500 (5404319552844595 / 2 ^ 55) = 3772460647397955 / 2 ^ 43"
    by (simp add: lerp_def num_eval)
  have c12: "xpos (cursor (ticks 12 d p)) = 3772460647397955 / 2 ^ 43"
    using cursor_step [of 11 d p] unfolding c11 mouse lit_0_15 s12 by simp
  have s13: "lerp (3772460647397955 / 2 ^ 43) 500 (5404319552844595 / 2 ^ 55) = 1933149263476931 / 2 ^ 42"
    by (simp add: lerp_def num_eval)
  have c13: "xpos (cursor (ticks 13 d p)) = 1933149263476931 / 2 ^ 42"
    using cursor_step [of 12 d p] unfolding c12 mouse lit_0_15 s13 by simp
  have s14: "lerp (1933149263476931 / 2 ^ 42) 500 (5404319552844595 / 2 ^ 55) = 7892121449152765 / 2 ^ 44"
    by (simp add: lerp_def num_eval)
  have c14: "xpos (cursor (ticks 14 d p)) = 7892121449152765 / 2 ^ 44"
    using cursor_step [of 13 d p] unfolding c13 mouse lit_0_15 s14 by simp
  have s15: "lerp (7892121449152765 / 2 ^ 44) 500 (5404319552844595 / 2 ^ 55) = 4013858592555525 / 2 ^ 43"
    by (simp add: lerp_def num_eval)
  have c15: "xpos (cursor (ticks 15 d p)) = 4013858592555525 / 2 ^ 43"
    using cursor_step [of 14 d p] unfolding c14 mouse lit_0_15 s15 by simp
  have s16: "lerp (4013858592555525 / 2 ^ 43) 500 (5404319552844595 / 2 ^ 55) = 1017871695084449 / 2 ^ 41"
    by (simp add: lerp_def num_eval)
  have c16: "xpos (cursor (ticks 16 d p)) = 1017871695084449 / 2 ^ 41"
    using cursor_step [of 15 d p] unfolding c15 mouse lit_0_15 s16 by simp
  have s17: "lerp (1017871695084449 / 2 ^ 41) 500 (5404319552844595 / 2 ^ 55) = 8240941479905453 / 2 ^ 44"
    by (simp add: lerp_def num_eval)
  have c17: "xpos (cursor (ticks 17 d p)) = 8240941479905453 / 2 ^ 44"
    using cursor_step [of 16 d p] unfolding c16 mouse lit_0_15 s17 by simp
  have s18: "lerp (8240941479905453 / 2 ^ 44) 500 (5404319552844595 / 2 ^ 55) = 8324214211250835 / 2 ^ 44"
    by (simp add: lerp_def num_eval)
  have c18: "xpos (cursor (ticks 18 d p)) = 8324214211250835 / 2 ^ 44"
    using cursor_step [of 17 d p] unfolding c17 mouse lit_0_15 s18 by simp
  have s19: "lerp (8324214211250835 / 2 ^ 44) 500 (5404319552844595 / 2 ^ 55) = 4197498016447205 / 2 ^ 43"
    by (simp add: lerp_def num_eval)
  have c19: "xpos (cursor (ticks 19 d p)) = 4197498016447205 / 2 ^ 43"
    using cursor_step [of 18 d p] unfolding c18 mouse lit_0_15 s19 by simp
  have s20: "lerp (4197498016447205 / 2 ^ 43) 500 (5404319552844595 / 2 ^ 55) = 1056895072661431 / 2 ^ 41"
    by (simp add: lerp_def num_eval)
  have c20: "xpos (cursor (ticks 20 d p)) = 1056895072661431 / 2 ^ 41"
    using cursor_step [of 19 d p] unfolding c19 mouse lit_0_15 s20 by simp
  have s21: "lerp (1056895072661431 / 2 ^ 41) 500 (5404319552844595 / 2 ^ 55) = 8506300447428931 / 2 ^ 44"
    by (simp add: lerp_def num_eval)
  have c21: "xpos (cursor (ticks 21 d p)) = 8506300447428931 / 2 ^ 44"
    using cursor_step [of 20 d p] unfolding c20 mouse lit_0_15 s21 by simp
  have s22: "lerp (8506300447428931 / 2 ^ 44) 500 (5404319552844595 / 2 ^ 55) = 8549769333645791 / 2 ^ 44"
    by (simp add: lerp_def num_eval)
  have c22: "xpos (cursor (ticks 22 d p)) = 8549769333645791 / 2 ^ 44"
    using cursor_step [of 21 d p] unfolding c21 mouse lit_0_15 s22 by simp
  have s23: "lerp (8549769333645791 / 2 ^ 44) 500 (5404319552844595 / 2 ^ 55) = 4293358943465061 / 2 ^ 43"
    by (simp add: lerp_def num_eval)
  have c23: "xpos (cursor (ticks 23 d p)) = 4293358943465061 / 2 ^ 43"
    using cursor_step [of 22 d p] unfolding c22 mouse lit_0_15 s23 by simp
  have s24: "lerp (4293358943465061 / 2 ^ 43) 500 (5404319552844595 / 2 ^ 55) = 2154531039305451 / 2 ^ 42"
    by (simp add: lerp_def num_eval)
  have c24: "xpos (cursor (ticks 24 d p)) = 2154531039305451 / 2 ^ 42"
    using cursor_step [of 23 d p] unfolding c23 mouse lit_0_15 s24 by simp
  have s25: "lerp (2154531039305451 / 2 ^ 42) 500 (5404319552844595 / 2 ^ 55) = 8644819486969733 / 2 ^ 44"
    by (simp add: lerp_def num_eval)
  have c25: "xpos (cursor (ticks 25 d p)) = 8644819486969733 / 2 ^ 44"
    using cursor_step [of 24 d p] unfolding c24 mouse lit_0_15 s25 by simp
  have s26: "lerp (8644819486969733 / 2 ^ 44) 500 (5404319552844595 / 2 ^ 55) = 8667510517255473 / 2 ^ 44"
    by (simp add: lerp_def num_eval)
  have c26: "xpos (cursor (ticks 26 d p)) = 8667510517255473 / 2 ^ 44"
    using cursor_step [of 25 d p] unfolding c25 mouse lit_0_15 s26 by simp
  have s27: "lerp (8667510517255473 / 2 ^ 44) 500 (5404319552844595 / 2 ^ 55) = 542924868312397 / 2 ^ 40"
    by (simp add: lerp_def num_eval)
  have c27: "xpos (cursor (ticks 27 d p)) = 542924868312397 / 2 ^ 40"
    using cursor_step [of 26 d p] unfolding c26 mouse lit_0_15 s27 by simp
  have s28: "lerp (542924868312397 / 2 ^ 40) 500 (5404319552844595 / 2 ^ 55) = 8703192162379799 / 2 ^ 44"
    by (simp add: lerp_def num_eval)
  have c28: "xpos (cursor (ticks 28 d p)) = 8703192162379799 / 2 ^ 44"
    using cursor_step [of 27 d p] unfolding c27 mouse lit_0_15 s28 by simp
  have s29: "lerp (8703192162379799 / 2 ^ 44) 500 (5404319552844595 / 2 ^ 55) = 8717127291354029 / 2 ^ 44"
    by (simp add: lerp_def num_eval)
  have c29: "xpos (cursor (ticks 29 d p)) = 8717127291354029 / 2 ^ 44"
    using cursor_step [of 28 d p] unfolding c28 mouse lit_0_15 s29 by simp
  have s30: "lerp (8717127291354029 / 2 ^ 44) 500 (5404319552844595 / 2 ^ 55) = 8728972150982125 / 2 ^ 44"
    by (simp add: lerp_def num_eval)
  have c30: "xpos (cursor (ticks 30 d p)) = 8728972150982125 / 2 ^ 44"
    using cursor_step [of 29 d p] unfolding c29 mouse lit_0_15 s30 by simp
  have s31: "lerp (8728972150982125 / 2 ^ 44) 500 (5404319552844595 / 2 ^ 55) = 4369520140833003 / 2 ^ 43"
    by (simp add: lerp_def num_eval)
  have c31: "xpos (cursor (ticks 31 d p)) = 4369520140833003 / 2 ^ 43"
    using cursor_step [of 30 d p] unfolding c30 mouse lit_0_15 s31 by simp
  have s32: "lerp (4369520140833003 / 2 ^ 43) 500 (5404319552844595 / 2 ^ 55) = 8747598192747305 / 2 ^ 44"
    by (simp add: lerp_def num_eval)
  have c32: "xpos (cursor (ticks 32 d p)) = 8747598192747305 / 2 ^ 44"
    using cursor_step [of 31 d p] unfolding c31 mouse lit_0_15 s32 by simp
  have s33: "lerp (8747598192747305 / 2 ^ 44) 500 (5404319552844595 / 2 ^ 55) = 8754872417166409 / 2 ^ 44"
    by (simp add: lerp_def num_eval)
  have c33: "xpos (cursor (ticks 33 d p)) = 8754872417166409 / 2 ^ 44"
    using cursor_step [of 32 d p] unfolding c32 mouse lit_0_15 s33 by simp
  have s34: "lerp (8754872417166409 / 2 ^ 44) 500 (5404319552844595 / 2 ^ 55) = 1095131938490331 / 2 ^ 41"
    by (simp add: lerp_def num_eval)
  have c34: "xpos (cursor (ticks 34 d p)) = 1095131938490331 / 2 ^ 41"
    using cursor_step [of 33 d p] unfolding c33 mouse lit_0_15 s34 by simp
  have s35: "lerp (1095131938490331 / 2 ^ 41) 500 (5404319552844595 / 2 ^ 55) = 8766311135065451 / 2 ^ 44"
    by (simp add: lerp_def num_eval)
  have c35: "xpos (cursor (ticks 35 d p)) = 8766311135065451 / 2 ^ 44"
    using cursor_step [of 34 d p] unfolding c34 mouse lit_0_15 s35 by simp
  have s36: "lerp (8766311135065451 / 2 ^ 44) 500 (5404319552844595 / 2 ^ 55) = 8770778418136833 / 2 ^ 44"
    by (simp add: lerp_def num_eval)
  have c36: "xpos (cursor (ticks 36 d p)) = 8770778418136833 / 2 ^ 44"
    using cursor_step [of 35 d p] unfolding c35 mouse lit_0_15 s36 by simp
  have s37: "lerp (8770778418136833 / 2 ^ 44) 500 (5404319552844595 / 2 ^ 55) = 2193643902186877 / 2 ^ 42"
    by (simp add: lerp_def num_eval)
  have c37: "xpos (cursor (ticks 37 d p)) = 2193643902186877 / 2 ^ 42"
    using cursor_step [of 36 d p] unfolding c36 mouse lit_0_15 s37 by simp
  have s38: "lerp (2193643902186877 / 2 ^ 42) 500 (5404319552844595 / 2 ^ 55) = 4388901610383291 / 2 ^ 43"
    by (simp add: lerp_def num_eval)
  have c38: "xpos (cursor (ticks 38 d p)) = 4388901610383291 / 2 ^ 43"
    using cursor_step [of 37 d p] unfolding c37 mouse lit_0_15 s38 by simp
  have s39: "lerp (4388901610383291 / 2 ^ 43) 500 (5404319552844595 / 2 ^ 55) = 8780546690982795 / 2 ^ 44"
    by (simp add: lerp_def num_eval)
  have c39: "xpos (cursor (ticks 39 d p)) = 8780546690982795 / 2 ^ 44"
    using cursor_step [of 38 d p] unfolding c38 mouse lit_0_15 s39 by simp
  show ?thesis
    unfolding c30 c38 c39 by simp
qed

text \<open>
  Why the place matters: from \<open>2 ^ 52\<close> on the doubles are a whole pixel apart or more, and
  a cursor three pixels short of a pointer there is left where it is by the interpolation,
  the step of 0.45 pixels being rounded away.
\<close>

lemma cursor_rests_far_out:
  "lerp (2 ^ 52 + 497) (2 ^ 52 + 500) (lit 0.15) = 2 ^ 52 + 497"
  unfolding lit_0_15 by (simp add: lerp_def num_eval)

lemma lerp_spec_power:
  "m - ((\<lambda>c. lerp_spec c m f) ^^ n) c = (1 - f) ^ n * (m - c)"
  by (induction n) (simp_all add: lerp_spec_distance)

lemma pointer_page_fields:
  "xpos (cursor pointer_page) = 0" "xpos (mouse pointer_page) = 500"
  by (simp_all add: pointer_page_def onMouseMove_def initial_page_def)

text \<open>
  C9, as the code has it. With the pointer held 500 pixels from the cursor, the cursor is
  still more than 3.8 pixels away after 30 ticks.
\<close>

theorem cursor_after_30_ticks_counterexample:
  "\<bar>xpos (cursor pointer_page) - xpos (mouse pointer_page)\<bar> = 500 \<and>
   3.8 < \<bar>xpos (cursor (ticks 30 (document 1440 5000) pointer_page))
          - xpos (mouse (ticks 30 (document 1440 5000) pointer_page))\<bar> \<and>
   \<not> \<bar>xpos (cursor (ticks 30 (document 1440 5000) pointer_page))
         - xpos (mouse (ticks 30 (document 1440 5000) pointer_page))\<bar> < 1"
proof -
  note chain = cursor_chain [OF pointer_page_fields, of "document 1440 5000"]
  have at30: "xpos (cursor (ticks 30 (document 1440 5000) pointer_page)) = 8728972150982125 / 2 ^ 44"
    using chain by blast
  show ?thesis
    unfolding ticks_mouse pointer_page_fields at30 by simp
qed

text \<open>
  C9, amended. With the pointer held still 500 pixels from the cursor, to the right or to the
  left, at whatever place (the two coordinates doubles of magnitude up to \<open>2 ^ 40\<close>, which
  keeps the spacing of the doubles far below a pixel), the distance that the code leaves is
  below one pixel after 39 ticks and after every later tick, and at least one pixel after
  every tick up to the 38th. In exact arithmetic the distance after \<open>n\<close> ticks is
  \<open>0.85 ^ n\<close> times the distance at the start, whatever the start, which for a start 500
  pixels away is below 1 from the 39th tick on and not before.
\<close>

theorem cursor_converges:
  "(is_double (xpos (cursor p)) \<and> is_double (xpos (mouse p)) \<and>
    \<bar>xpos (cursor p)\<bar> \<le> 2 ^ 40 \<and> \<bar>xpos (mouse p)\<bar> \<le> 2 ^ 40 \<and>
    \<bar>xpos (cursor p) - xpos (mouse p)\<bar> = 500 \<longrightarrow>
      (39 \<le> n \<longrightarrow>
         \<bar>xpos (cursor (ticks n d p)) - xpos (mouse (ticks n d p))\<bar> < 1) \<and>
      (n \<le> 38 \<longrightarrow>
         1 \<le> \<bar>xpos (cursor (ticks n d p)) - xpos (mouse (ticks n d p))\<bar>)) \<and>
   \<bar>m - ((\<lambda>c. lerp_spec c m 0.15) ^^ n) c\<bar> = 0.85 ^ n * \<bar>m - c\<bar> \<and>
   (\<bar>m - c\<bar> = 500 \<longrightarrow>
      (39 \<le> n \<longrightarrow> \<bar>m - ((\<lambda>c. lerp_spec c m 0.15) ^^ n) c\<bar> < 1) \<and>
      (n \<le> 38 \<longrightarrow> 1 \<le> \<bar>m - ((\<lambda>c. lerp_spec c m 0.15) ^^ n) c\<bar>))"
proof -
  have exact: "\<bar>m - ((\<lambda>c. lerp_spec c m 0.15) ^^ n) c\<bar> = 0.85 ^ n * \<bar>m - c\<bar>"
    by (simp add: lerp_spec_power abs_mult)
  have late: "0.85 ^ n * (500::real) < 1" if "39 \<le> n"
  proof -
    have "(0.85::real) ^ n \<le> 0.85 ^ 39"
      using that by (intro power_decreasing) simp_all
    then have "0.85 ^ n * (500::real) \<le> 0.85 ^ 39 * 500"
      by simp
    also have "\<dots> < 1"
      by (simp add: power_divide)
    finally show ?thesis .
  qed
  have early: "1 \<le> 0.85 ^ n * (500::real)" if "n \<le> 38"
  proof -
    have "(1::real) \<le> 0.85 ^ 38 * 500"
      by (simp add: power_divide)
    also have "(0.85::real) ^ 38 \<le> 0.85 ^ n"
      using that by (intro power_decreasing) simp_all
    then have "0.85 ^ 38 * (500::real) \<le> 0.85 ^ n * 500"
      by simp
    finally show ?thesis .
  qed
  have machine:
    "(39 \<le> n \<longrightarrow> \<bar>xpos (cursor (ticks n d p)) - xpos (mouse (ticks n d p))\<bar> < 1) \<and>
     (n \<le> 38 \<longrightarrow> 1 \<le> \<bar>xpos (cursor (ticks n d p)) - xpos (mouse (ticks n d p))\<bar>)"
    if doubles: "is_double (xpos (cursor p))" "is_double (xpos (mouse p))"
      and place: "\<bar>xpos (cursor p)\<bar> \<le> 2 ^ 40" "\<bar>xpos (mouse p)\<bar> \<le> 2 ^ 40"
      and apart: "\<bar>xpos (cursor p) - xpos (mouse p)\<bar> = 500"
  proof -
    define F where "F = lit 0.15"
    define e where "e = rounding_slack (max \<bar>xpos (cursor p)\<bar> \<bar>xpos (mouse p)\<bar>)"
    define a where "a = \<bar>xpos (mouse p) - xpos (cursor (ticks n d p))\<bar>"
    have "0 < lit 0.15" "149 / 1000 \<le> lit 0.15" "lit 0.15 \<le> 3 / 20"
      unfolding lit_0_15 by simp_all
    with lit_0_15_range
    have F: "is_double F" "0 < F" "F < 1" "149 / 1000 \<le> F" "F \<le> 3 / 20"
      unfolding F_def by blast+
    from doubles(1) have c0: "is_double (xpos (cursor (ticks 0 d p)))"
      by simp
    from place have "e \<le> rounding_slack (2 ^ 40)"
      unfolding e_def by (intro rounding_slack_mono) simp
    also have "\<dots> \<le> 149 / 100000"
      using MIN_VALUE_range by (simp add: rounding_slack_def)
    also from F(4) have "\<dots> \<le> F / 100"
      by simp
    finally have slack: "e / F \<le> 1 / 100"
      using F(2) by (simp add: field_simps)
    from apart have start: "\<bar>xpos (mouse p) - xpos (cursor p)\<bar> = 500"
      by (simp add: abs_minus_commute)
    from lerp_sequence_upper
        [of "\<lambda>n. xpos (cursor (ticks n d p))" "xpos (mouse p)" F n,
          OF cursor_step [unfolded F_def [symmetric]] c0 doubles(2) F(1-3)]
    have "a \<le> (1 - F) ^ n * 500 + e / F"
      by (simp add: a_def e_def start)
    with slack have upper: "a \<le> (1 - F) ^ n * 500 + 1 / 100"
      by linarith
    from lerp_sequence_lower
        [of "\<lambda>n. xpos (cursor (ticks n d p))" "xpos (mouse p)" F n,
          OF cursor_step [unfolded F_def [symmetric]] c0 doubles(2) F(1-3)]
    have "(1 - F) ^ n * 500 - e / F \<le> a"
      by (simp add: a_def e_def start)
    with slack have lower: "(1 - F) ^ n * 500 - 1 / 100 \<le> a"
      by linarith
    have "a < 1" if "39 \<le> n"
    proof -
      from F that have "(1 - F) ^ n \<le> (1 - F) ^ 39"
        by (intro power_decreasing) simp_all
      also from F have "\<dots> \<le> (851 / 1000) ^ 39"
        by (intro power_mono) simp_all
      finally have "(1 - F) ^ n * 500 \<le> (851 / 1000) ^ 39 * 500"
        by simp
      also have "\<dots> < 99 / 100"
        by (simp add: power_divide)
      finally show ?thesis
        using upper by linarith
    qed
    moreover have "1 \<le> a" if "n \<le> 38"
    proof -
      have "(101 / 100::real) \<le> (17 / 20) ^ 38 * 500"
        by (simp add: power_divide)
      also from F have "(17 / 20) ^ 38 \<le> (1 - F) ^ 38"
        by (intro power_mono) simp_all
      then have "(17 / 20) ^ 38 * 500 \<le> (1 - F) ^ 38 * 500"
        by simp
      also from F that have "(1 - F) ^ 38 \<le> (1 - F) ^ n"
        by (intro power_decreasing) simp_all
      then have "(1 - F) ^ 38 * 500 \<le> (1 - F) ^ n * 500"
        by simp
      finally show ?thesis
        using lower by linarith
    qed
    ultimately show ?thesis
      by (simp add: ticks_mouse a_def abs_minus_commute)
  qed
  from exact late early machine show ?thesis
    by simp
qed

theorem cursor_converges_witness:
  "is_double (xpos (cursor pointer_page)) \<and> is_double (xpos (mouse pointer_page)) \<and>
   \<bar>xpos (cursor pointer_page)\<bar> \<le> 2 ^ 40 \<and> \<bar>xpos (mouse pointer_page)\<bar> \<le> 2 ^ 40 \<and>
   \<bar>xpos (cursor pointer_page) - xpos (mouse pointer_page)\<bar> = 500 \<and>
   \<bar>xpos (cursor (ticks 39 (document 1440 5000) pointer_page))
      - xpos (mouse (ticks 39 (document 1440 5000) pointer_page))\<bar> < 1 \<and>
   1 \<le> \<bar>xpos (cursor (ticks 38 (document 1440 5000) pointer_page))
          - xpos (mouse (ticks 38 (document 1440 5000) pointer_page))\<bar> \<and>
   \<bar>(500::real) - 0\<bar> = 500 \<and>
   \<bar>500 - ((\<lambda>c. lerp_spec c 500 0.15) ^^ 39) 0\<bar> < 1 \<and>
   1 \<le> \<bar>500 - ((\<lambda>c. lerp_spec c 500 0.15) ^^ 38) 0\<bar>"
proof -
  have five: "is_double 500"
    by (simp add: is_double_def num_eval)
  show ?thesis
    using cursor_converges [of pointer_page 39 "document 1440 5000" 500 0]
      cursor_converges [of pointer_page 38 "document 1440 5000" 500 0]
    by (simp add: pointer_page_fields five)
qed

end
